theory Spec2Isabelle
  imports Main "HOL-Library.Char_ord" "HOL-Library.List_Lexorder"
begin

section \<open>Data model (src/src/domain/channel.ts)\<close>

text \<open>
  Only the fields read by the scheduling code are kept.  JavaScript numbers that count
  minutes are integers here; a value that is \<open>NaN\<close>, \<open>undefined\<close> or \<open>null\<close> is
  \<open>None\<close>.  Optional fields (\<open>autoSendEnabled?\<close>, \<open>autoSendSchedules?\<close>) are options.
\<close>

record ChannelAutoSendSchedule =
  schedule_id :: string
  enabled :: bool
  daysOfWeek :: "int list"
  time :: string
  promptsPerRun :: int
  lastRunAt :: "string option"

record Channel =
  channel_id :: string
  autoSendEnabled :: "bool option"
  autoSendSchedules :: "ChannelAutoSendSchedule list option"

datatype ChannelAutomationState = Current | Next | Previous | Default

record ChannelStateInfo =
  channelId :: string
  state :: ChannelAutomationState
  timeSlot :: "string option"

section \<open>Time strings\<close>

text \<open>
  Modelled from the spec: the value of a decimal digit character, used by \<open>hhmmToMinutes\<close>
  below (which is not among the sources).
\<close>

definition digitVal :: "char \<Rightarrow> int option" where
  "digitVal c =
     (let n = (of_char c :: nat)
      in if 48 \<le> n \<and> n \<le> 57 then Some (int n - 48) else None)"

text \<open>
  Modelled from the spec: \<open>hhmmToMinutes\<close> is imported from \<open>./scheduleFreeSlots\<close>, which
  is not among the sources.  The spec has slot times as well-formed minute-of-day values in
  \<open>[0, 1440)\<close> written \<open>HH:MM\<close> (24h), and malformed times as ignored: the callers test the
  result with \<open>Number.isNaN\<close>.  So a string \<open>HH:MM\<close> with \<open>HH \<le> 23\<close> and \<open>MM \<le> 59\<close>
  yields \<open>60 * HH + MM\<close> and every other string yields \<open>None\<close> (NaN).  These are
  the strings the schedule endpoint of the backend lets through (two digits, a colon, two
  digits, hours up to 23, minutes up to 59).
\<close>

fun hhmmToMinutes :: "string \<Rightarrow> int option" where
  "hhmmToMinutes [h1, h2, c, m1, m2] =
     (case (digitVal h1, digitVal h2, digitVal m1, digitVal m2) of
        (Some a, Some b, Some x, Some y) \<Rightarrow>
          if c = CHR '':'' \<and> 10 * a + b \<le> 23 \<and> 10 * x + y \<le> 59
          then Some ((10 * a + b) * 60 + (10 * x + y))
          else None
      | _ \<Rightarrow> None)"
| "hhmmToMinutes _ = None"

section \<open>Per-channel classification (getChannelState)\<close>

text \<open>\<open>Math.max(1, Math.min(60, minIntervalMinutes || 11))\<close>: \<open>0\<close> and NaN are falsy.\<close>

definition validInterval :: "int option \<Rightarrow> int" where
  "validInterval minIntervalMinutes =
     max 1 (min 60 (case minIntervalMinutes of
                      None \<Rightarrow> 11
                    | Some n \<Rightarrow> if n = 0 then 11 else n))"

text \<open>
  \<open>autoSendSchedules.filter(s => s.enabled && s.time).map(s => s.time).sort()\<close>: the empty
  string is falsy, and the default sort compares strings by code unit, which on the byte
  strings used here is the lexicographic order of \<open>char list\<close>.
\<close>

definition enabledTimes :: "ChannelAutoSendSchedule list \<Rightarrow> string list" where
  "enabledTimes schedules =
     sort (map time (filter (\<lambda>schedule. enabled schedule \<and> time schedule \<noteq> []) schedules))"

text \<open>Lines 41 to 49: the activity test of one slot.\<close>

definition isActive :: "int \<Rightarrow> int \<Rightarrow> int \<Rightarrow> bool" where
  "isActive slotMinutes validIv nowMinutes =
     (let endMinutes = slotMinutes + validIv
      in if endMinutes < 1440
         then slotMinutes \<le> nowMinutes \<and> nowMinutes < endMinutes
         else (let endNormalized = endMinutes mod 1440
               in nowMinutes \<ge> slotMinutes \<or> nowMinutes < endNormalized))"

text \<open>The first loop (lines 37 to 54): the first active slot in sorted order.\<close>

fun findActive :: "string list \<Rightarrow> int \<Rightarrow> int \<Rightarrow> string option" where
  "findActive [] nowMinutes validIv = None"
| "findActive (t # rest) nowMinutes validIv =
     (case hhmmToMinutes t of
        None \<Rightarrow> findActive rest nowMinutes validIv
      | Some slotMinutes \<Rightarrow>
          if isActive slotMinutes validIv nowMinutes then Some t
          else findActive rest nowMinutes validIv)"

text \<open>The second loop (lines 57 to 64): the first slot in sorted order that is after now.\<close>

fun findUpcoming :: "string list \<Rightarrow> int \<Rightarrow> string option" where
  "findUpcoming [] nowMinutes = None"
| "findUpcoming (t # rest) nowMinutes =
     (case hhmmToMinutes t of
        None \<Rightarrow> findUpcoming rest nowMinutes
      | Some slotMinutes \<Rightarrow>
          if slotMinutes > nowMinutes then Some t
          else findUpcoming rest nowMinutes)"

definition getChannelState ::
  "Channel \<Rightarrow> int \<Rightarrow> int option \<Rightarrow> ChannelAutomationState \<times> string option" where
  "getChannelState channel nowMinutes minIntervalMinutes =
     (case autoSendSchedules channel of
        None \<Rightarrow> (Default, None)
      | Some schedules \<Rightarrow>
          if autoSendEnabled channel \<noteq> Some True \<or> schedules = [] then (Default, None)
          else
            (case enabledTimes schedules of
               [] \<Rightarrow> (Default, None)
             | t0 # rest \<Rightarrow>
                 (case findActive (t0 # rest) nowMinutes (validInterval minIntervalMinutes) of
                    Some t \<Rightarrow> (Current, Some t)
                  | None \<Rightarrow>
                      (case findUpcoming (t0 # rest) nowMinutes of
                         Some t \<Rightarrow> (Next, Some t)
                       | None \<Rightarrow> (Next, Some t0)))))"

section \<open>Fleet-wide reduction (calculateChannelStates)\<close>

text \<open>The three running picks \<open>{ channelId, timeSlot, minutes } | null\<close>.\<close>

record SlotPick =
  pickId :: string
  pickSlot :: string
  pickMinutes :: int

text \<open>\<open>pick && channel.id === pick.channelId\<close>, returning the pick when it holds.\<close>

definition selectedBy :: "SlotPick option \<Rightarrow> Channel \<Rightarrow> SlotPick option" where
  "selectedBy pick channel =
     (case pick of
        None \<Rightarrow> None
      | Some p \<Rightarrow> if channel_id channel = pickId p then Some p else None)"

text \<open>\<open>if (!pick || minutes > pick.minutes) pick = candidate\<close> (lines 97, 158 and 182).\<close>

definition keepLarger :: "SlotPick option \<Rightarrow> SlotPick \<Rightarrow> SlotPick option" where
  "keepLarger pick candidate =
     (case pick of
        None \<Rightarrow> Some candidate
      | Some p \<Rightarrow> if pickMinutes candidate > pickMinutes p then Some candidate else Some p)"

text \<open>\<open>if (!pick || minutes < pick.minutes) pick = candidate\<close> (line 118).\<close>

definition keepSmaller :: "SlotPick option \<Rightarrow> SlotPick \<Rightarrow> SlotPick option" where
  "keepSmaller pick candidate =
     (case pick of
        None \<Rightarrow> Some candidate
      | Some p \<Rightarrow> if pickMinutes candidate < pickMinutes p then Some candidate else Some p)"

text \<open>The body of the loop of lines 91 to 102.\<close>

definition currentStep ::
  "int \<Rightarrow> int option \<Rightarrow> SlotPick option \<Rightarrow> Channel \<Rightarrow> SlotPick option" where
  "currentStep nowMinutes minIntervalMinutes currentChannel channel =
     (let (st, slot) = getChannelState channel nowMinutes minIntervalMinutes
      in case slot of
           None \<Rightarrow> currentChannel
         | Some ts \<Rightarrow>
             if st = Current \<and> ts \<noteq> [] then
               (case hhmmToMinutes ts of
                  None \<Rightarrow> currentChannel
                | Some minutes \<Rightarrow>
                    keepLarger currentChannel
                      \<lparr>pickId = channel_id channel, pickSlot = ts, pickMinutes = minutes\<rparr>)
             else currentChannel)"

definition findCurrentChannel :: "Channel list \<Rightarrow> int \<Rightarrow> int option \<Rightarrow> SlotPick option" where
  "findCurrentChannel channels nowMinutes minIntervalMinutes =
     foldl (currentStep nowMinutes minIntervalMinutes) None channels"

text \<open>The body of the loop of lines 105 to 123.\<close>

definition nextStep ::
  "SlotPick option \<Rightarrow> int \<Rightarrow> int option \<Rightarrow> SlotPick option \<Rightarrow> Channel \<Rightarrow> SlotPick option" where
  "nextStep currentChannel nowMinutes minIntervalMinutes nextChannel channel =
     (if selectedBy currentChannel channel \<noteq> None then nextChannel
      else
        (let (st, slot) = getChannelState channel nowMinutes minIntervalMinutes
         in case slot of
              None \<Rightarrow> nextChannel
            | Some ts \<Rightarrow>
                if st = Next \<and> ts \<noteq> [] then
                  (case hhmmToMinutes ts of
                     None \<Rightarrow> nextChannel
                   | Some minutes \<Rightarrow>
                       (let normalizedMinutes =
                              (if minutes \<le> nowMinutes then minutes + 1440 else minutes)
                        in keepSmaller nextChannel
                             \<lparr>pickId = channel_id channel, pickSlot = ts,
                              pickMinutes = normalizedMinutes\<rparr>))
                else nextChannel))"

definition findNextChannel ::
  "Channel list \<Rightarrow> SlotPick option \<Rightarrow> int \<Rightarrow> int option \<Rightarrow> SlotPick option" where
  "findNextChannel channels currentChannel nowMinutes minIntervalMinutes =
     foldl (nextStep currentChannel nowMinutes minIntervalMinutes) None channels"

text \<open>Lines 147 to 155: has the slot's window ended today?\<close>

definition isPast :: "int \<Rightarrow> int \<Rightarrow> int \<Rightarrow> bool" where
  "isPast slotMinutes validIv nowMinutes =
     (let endMinutes = slotMinutes + validIv
      in if endMinutes < 1440
         then nowMinutes \<ge> endMinutes
         else (let endNormalized = endMinutes mod 1440
               in nowMinutes \<ge> endNormalized \<and> nowMinutes < slotMinutes))"

text \<open>The body of the inner loop of lines 142 to 162.\<close>

definition previousSlotStep ::
  "string \<Rightarrow> int \<Rightarrow> int \<Rightarrow> SlotPick option \<Rightarrow> string \<Rightarrow> SlotPick option" where
  "previousSlotStep cid nowMinutes validIv previousChannel t =
     (case hhmmToMinutes t of
        None \<Rightarrow> previousChannel
      | Some slotMinutes \<Rightarrow>
          if isPast slotMinutes validIv nowMinutes
          then keepLarger previousChannel
                 \<lparr>pickId = cid, pickSlot = t, pickMinutes = slotMinutes\<rparr>
          else previousChannel)"

text \<open>The body of the outer loop of lines 129 to 163.\<close>

definition previousStep ::
  "SlotPick option \<Rightarrow> int \<Rightarrow> int \<Rightarrow> SlotPick option \<Rightarrow> Channel \<Rightarrow> SlotPick option" where
  "previousStep currentChannel nowMinutes validIv previousChannel channel =
     (if selectedBy currentChannel channel \<noteq> None then previousChannel
      else if autoSendEnabled channel \<noteq> Some True then previousChannel
      else
        (case autoSendSchedules channel of
           None \<Rightarrow> previousChannel
         | Some schedules \<Rightarrow>
             foldl (previousSlotStep (channel_id channel) nowMinutes validIv)
               previousChannel (enabledTimes schedules)))"

text \<open>The body of the loop of lines 167 to 187.\<close>

definition fallbackStep :: "SlotPick option \<Rightarrow> SlotPick option \<Rightarrow> Channel \<Rightarrow> SlotPick option" where
  "fallbackStep currentChannel previousChannel channel =
     (if selectedBy currentChannel channel \<noteq> None then previousChannel
      else if autoSendEnabled channel \<noteq> Some True then previousChannel
      else
        (case autoSendSchedules channel of
           None \<Rightarrow> previousChannel
         | Some schedules \<Rightarrow>
             (case enabledTimes schedules of
                [] \<Rightarrow> previousChannel
              | t0 # rest \<Rightarrow>
                  (let lastTime = last (t0 # rest)
                   in case hhmmToMinutes lastTime of
                        None \<Rightarrow> previousChannel
                      | Some lastMinutes \<Rightarrow>
                          keepLarger previousChannel
                            \<lparr>pickId = channel_id channel, pickSlot = lastTime,
                             pickMinutes = lastMinutes\<rparr>))))"

definition findPreviousChannel ::
  "Channel list \<Rightarrow> SlotPick option \<Rightarrow> int \<Rightarrow> int option \<Rightarrow> SlotPick option" where
  "findPreviousChannel channels currentChannel nowMinutes minIntervalMinutes =
     (let validIv = validInterval minIntervalMinutes;
          previousChannel = foldl (previousStep currentChannel nowMinutes validIv) None channels
      in case previousChannel of
           Some p \<Rightarrow> Some p
         | None \<Rightarrow> foldl (fallbackStep currentChannel) None channels)"

text \<open>The body of the loop of lines 191 to 216: what \<open>states.set\<close> stores for a channel.\<close>

definition finalInfo ::
  "SlotPick option \<Rightarrow> SlotPick option \<Rightarrow> SlotPick option \<Rightarrow> Channel \<Rightarrow> ChannelStateInfo" where
  "finalInfo currentChannel nextChannel previousChannel channel =
     (case selectedBy currentChannel channel of
        Some c \<Rightarrow>
          \<lparr>channelId = channel_id channel, state = Current, timeSlot = Some (pickSlot c)\<rparr>
      | None \<Rightarrow>
          (case selectedBy nextChannel channel of
             Some n \<Rightarrow>
               \<lparr>channelId = channel_id channel, state = Next, timeSlot = Some (pickSlot n)\<rparr>
           | None \<Rightarrow>
               (case selectedBy previousChannel channel of
                  Some p \<Rightarrow>
                    \<lparr>channelId = channel_id channel, state = Previous,
                     timeSlot = Some (pickSlot p)\<rparr>
                | None \<Rightarrow>
                    \<lparr>channelId = channel_id channel, state = Default, timeSlot = None\<rparr>)))"

definition applyStates ::
  "SlotPick option \<Rightarrow> SlotPick option \<Rightarrow> SlotPick option \<Rightarrow>
   (string \<rightharpoonup> ChannelStateInfo) \<Rightarrow> Channel \<Rightarrow> (string \<rightharpoonup> ChannelStateInfo)" where
  "applyStates currentChannel nextChannel previousChannel states channel =
     states(channel_id channel \<mapsto> finalInfo currentChannel nextChannel previousChannel channel)"

text \<open>
  \<open>calculateChannelStates\<close> reads the clock; here the minute of the day it computes from the
  clock, \<open>getHours() * 60 + getMinutes()\<close>, is the third argument.  The result is the
  \<open>Map\<close> from channel ids to state infos.
\<close>

definition calculateChannelStates ::
  "Channel list \<Rightarrow> int option \<Rightarrow> int \<Rightarrow> (string \<rightharpoonup> ChannelStateInfo)" where
  "calculateChannelStates channels minIntervalMinutes nowMinutes =
     (let currentChannel = findCurrentChannel channels nowMinutes minIntervalMinutes;
          nextChannel = findNextChannel channels currentChannel nowMinutes minIntervalMinutes;
          previousChannel =
            findPreviousChannel channels currentChannel nowMinutes minIntervalMinutes
      in foldl (applyStates currentChannel nextChannel previousChannel) Map.empty channels)"

section \<open>Vocabulary of the statements\<close>

text \<open>
  The times of the slots the classifier looks at: the enabled slots (with a non-empty time)
  of an automation-enabled channel, in the order in which the loops visit them.
\<close>

definition slotTimes :: "Channel \<Rightarrow> string list" where
  "slotTimes channel =
     (if autoSendEnabled channel = Some True
      then (case autoSendSchedules channel of
              None \<Rightarrow> []
            | Some schedules \<Rightarrow> enabledTimes schedules)
      else [])"

text \<open>A slot time that parses and whose window contains now.\<close>

definition slotActive :: "int \<Rightarrow> int \<Rightarrow> string \<Rightarrow> bool" where
  "slotActive nowMinutes validIv t =
     (case hhmmToMinutes t of
        None \<Rightarrow> False
      | Some slotMinutes \<Rightarrow> isActive slotMinutes validIv nowMinutes)"

text \<open>The activity test in the words of the specification (section 4.2).\<close>

definition specActive :: "int \<Rightarrow> int \<Rightarrow> int \<Rightarrow> bool" where
  "specActive T W nowMinutes =
     (if T + W < 1440 then T \<le> nowMinutes \<and> nowMinutes < T + W
      else nowMinutes \<ge> T \<or> nowMinutes < (T + W) mod 1440)"

text \<open>The specification's minutes until a slot fires.\<close>

definition minutesUntil :: "int \<Rightarrow> int \<Rightarrow> int" where
  "minutesUntil T nowMinutes = (if T > nowMinutes then T - nowMinutes else T + 1440 - nowMinutes)"


text \<open>
  What a channel offers to the next pick: the body of the loop of lines 105 to 123 up to
  the comparison with the running pick.
\<close>

definition nextCandidate ::
  "SlotPick option \<Rightarrow> int \<Rightarrow> int option \<Rightarrow> Channel \<Rightarrow> SlotPick option" where
  "nextCandidate currentChannel nowMinutes minIntervalMinutes channel =
     (if selectedBy currentChannel channel \<noteq> None then None
      else
        (case getChannelState channel nowMinutes minIntervalMinutes of
           (st, None) \<Rightarrow> None
         | (st, Some ts) \<Rightarrow>
             if st = Next then
               (case hhmmToMinutes ts of
                  None \<Rightarrow> None
                | Some minutes \<Rightarrow>
                    Some \<lparr>pickId = channel_id channel, pickSlot = ts,
                          pickMinutes = (if minutes \<le> nowMinutes then minutes + 1440
                                         else minutes)\<rparr>)
             else None))"




text \<open>Example channels of the scenarios.\<close>

definition slotAt :: "string \<Rightarrow> string \<Rightarrow> ChannelAutoSendSchedule" where
  "slotAt i t =
     \<lparr>schedule_id = i, enabled = True, daysOfWeek = [0, 1, 2, 3, 4, 5, 6], time = t,
      promptsPerRun = 1, lastRunAt = None\<rparr>"

definition channelWith :: "string \<Rightarrow> string list \<Rightarrow> Channel" where
  "channelWith i ts =
     \<lparr>channel_id = i, autoSendEnabled = Some True,
      autoSendSchedules = Some (map (slotAt ''slot'') ts)\<rparr>"

section \<open>Tick processor\<close>

text \<open>
  Modelled from the spec: the tick processor \<open>processAutoSendTick\<close> lives in
  \<open>./services/autoSendScheduler\<close>, which is not among the sources (only the cron caller
  is).  The definitions below follow sections 3 and 4.3 of the specification: the clock
  supplies now as a calendar date, a weekday and a minute of the day; a slot is due when it
  is enabled, its days of week include today's weekday and its time equals the minute of
  the tick; a due slot is skipped when its \<open>lastFiredAt\<close> has the calendar date of now;
  otherwise \<open>promptsPerRun\<close> generation invocations are made one after the other, each
  outcome recorded, and \<open>lastFiredAt\<close> is set to now whatever the outcomes.
\<close>

record Instant =
  date :: int
  weekday :: nat
  minuteOfDay :: int

record Slot =
  slot_id :: string
  slot_enabled :: bool
  slot_daysOfWeek :: "nat list"
  slot_time :: int
  slot_promptsPerRun :: nat
  lastFiredAt :: "Instant option"

record TickChannel =
  tick_channel_id :: string
  automationEnabled :: bool
  slots :: "Slot list"

text \<open>One firing in the report of a tick: channel id, slot id, outcome of each invocation.\<close>

type_synonym Firing = "string \<times> string \<times> bool list"

text \<open>
  The generation collaborator is outside the core: its outcome for the \<open>k\<close>-th invocation
  of a slot of a channel is a parameter (\<open>True\<close> for success).
\<close>

type_synonym Generate = "string \<Rightarrow> string \<Rightarrow> nat \<Rightarrow> bool"

text \<open>
  Modelled from the spec: step 2 of section 4.3, a slot is due when it is enabled, today's
  weekday is among its days of week and its time is the minute of the tick.
\<close>

definition isDue :: "Instant \<Rightarrow> Slot \<Rightarrow> bool" where
  "isDue now slot =
     (slot_enabled slot \<and> weekday now \<in> set (slot_daysOfWeek slot)
      \<and> slot_time slot = minuteOfDay now)"

text \<open>
  Modelled from the spec: step 3 of section 4.3, the idempotency gate:
  \<open>lastFiredAt\<close> falls on the calendar date of now.
\<close>

definition firedToday :: "Instant \<Rightarrow> Slot \<Rightarrow> bool" where
  "firedToday now slot =
     (case lastFiredAt slot of
        None \<Rightarrow> False
      | Some fired \<Rightarrow> date fired = date now)"

text \<open>
  Modelled from the spec: steps 3 to 5 of section 4.3 for one slot.  A slot that is not due
  or is held back by the gate is left as it is; otherwise its \<open>promptsPerRun\<close> generation
  invocations are made in order and \<open>lastFiredAt\<close> becomes now, whatever their outcomes.
\<close>

definition processSlot :: "Generate \<Rightarrow> Instant \<Rightarrow> string \<Rightarrow> Slot \<Rightarrow> Slot \<times> Firing list" where
  "processSlot generate now cid slot =
     (if isDue now slot \<and> \<not> firedToday now slot
      then (slot\<lparr>lastFiredAt := Some now\<rparr>,
            [(cid, slot_id slot,
              map (generate cid (slot_id slot)) [0 ..< slot_promptsPerRun slot])])
      else (slot, []))"

text \<open>
  Modelled from the spec: steps 1 and 2 of section 4.3 for one channel; the slots of a
  channel whose automation is switched off are inert.
\<close>

definition processChannel ::
  "Generate \<Rightarrow> Instant \<Rightarrow> TickChannel \<Rightarrow> TickChannel \<times> Firing list" where
  "processChannel generate now channel =
     (if automationEnabled channel
      then (let results = map (processSlot generate now (tick_channel_id channel)) (slots channel)
            in (channel\<lparr>slots := map fst results\<rparr>, concat (map snd results)))
      else (channel, []))"

text \<open>
  Modelled from the spec: one tick over all channels of the store; it returns the updated
  store and the report of the firings.
\<close>

definition processTick ::
  "Generate \<Rightarrow> Instant \<Rightarrow> TickChannel list \<Rightarrow> TickChannel list \<times> Firing list" where
  "processTick generate now channels =
     (let results = map (processChannel generate now) channels
      in (map fst results, concat (map snd results)))"

text \<open>
  Modelled from the spec: the periodic driver, the tick processor invoked once per element of a list of ticks, each
  with its own now and its own outcomes of the generation collaborator, on the store left by
  the tick before; the reports are collected in order.
\<close>

fun runTicks ::
  "(Generate \<times> Instant) list \<Rightarrow> TickChannel list \<Rightarrow> TickChannel list \<times> Firing list" where
  "runTicks [] store = (store, [])"
| "runTicks ((generate, now) # rest) store =
     (let (store1, report1) = processTick generate now store;
          (store2, report2) = runTicks rest store1
      in (store2, report1 @ report2))"

text \<open>The firings of one slot in a report, and the generation invocations they made.\<close>

definition firingsOf :: "string \<Rightarrow> string \<Rightarrow> Firing list \<Rightarrow> Firing list" where
  "firingsOf cid sid report = filter (\<lambda>(c, s, outcomes). c = cid \<and> s = sid) report"

definition generationCalls :: "string \<Rightarrow> string \<Rightarrow> Firing list \<Rightarrow> nat" where
  "generationCalls cid sid report =
     sum_list (map (\<lambda>(c, s, outcomes). length outcomes) (firingsOf cid sid report))"

text \<open>Slot identifiers are unique: the (channel id, slot id) pairs of a store.\<close>

definition slotKeys :: "TickChannel list \<Rightarrow> (string \<times> string) list" where
  "slotKeys channels =
     concat (map (\<lambda>channel. map (\<lambda>slot. (tick_channel_id channel, slot_id slot)) (slots channel))
               channels)"

text \<open>A store of the examples: one channel with one slot at 09:00 that makes two prompts.\<close>

definition exampleNow :: Instant where
  "exampleNow = \<lparr>date = 20000, weekday = 1, minuteOfDay = 540\<rparr>"

definition exampleSlot :: Slot where
  "exampleSlot =
     \<lparr>slot_id = ''s1'', slot_enabled = True, slot_daysOfWeek = [1, 2, 3, 4, 5],
      slot_time = 540, slot_promptsPerRun = 2, lastFiredAt = None\<rparr>"

definition exampleStore :: "TickChannel list" where
  "exampleStore =
     [\<lparr>tick_channel_id = ''c1'', automationEnabled = True, slots = [exampleSlot]\<rparr>]"

definition alwaysOk :: Generate where
  "alwaysOk cid sid k = True"

section \<open>Time strings: parsing agrees with the sort order\<close>

lemma digitVal_SomeD:
  "digitVal c = Some d \<Longrightarrow> 0 \<le> d \<and> d \<le> 9 \<and> d = int (of_char c) - 48"
  by (auto simp: digitVal_def Let_def split: if_splits)

lemma hhmmToMinutes_SomeD:
  assumes "hhmmToMinutes s = Some m"
  obtains h1 h2 m1 m2 a b x y where
    "s = [h1, h2, CHR '':'', m1, m2]"
    "digitVal h1 = Some a" "digitVal h2 = Some b" "digitVal m1 = Some x" "digitVal m2 = Some y"
    "10 * a + b \<le> 23" "10 * x + y \<le> 59" "m = (10 * a + b) * 60 + (10 * x + y)"
proof -
  from assms obtain h1 h2 c m1 m2 where s: "s = [h1, h2, c, m1, m2]"
    by (cases s rule: hhmmToMinutes.cases) auto
  with assms show thesis
    by (auto split: option.splits if_splits intro: that)
qed

lemma hhmmToMinutes_range:
  assumes "hhmmToMinutes s = Some m"
  shows "0 \<le> m \<and> m < 1440"
  using assms by (elim hhmmToMinutes_SomeD) (auto dest!: digitVal_SomeD)

lemma char_less_digit:
  "digitVal c = Some a \<Longrightarrow> digitVal c' = Some a' \<Longrightarrow> (c < c') = (a < a')"
  by (auto simp: digitVal_def Let_def less_char_def split: if_splits)

lemma char_eq_digit:
  "digitVal c = Some a \<Longrightarrow> digitVal c' = Some a' \<Longrightarrow> (c = c') = (a = a')"
  by (auto simp: digitVal_def Let_def split: if_splits)

lemma hhmmToMinutes_le_iff:
  assumes "hhmmToMinutes s = Some a" "hhmmToMinutes t = Some b"
  shows "s \<le> t \<longleftrightarrow> a \<le> b"
proof -
  from assms(1) obtain h1 h2 m1 m2 d1 d2 d3 d4 where s: "s = [h1, h2, CHR '':'', m1, m2]"
    and ds: "digitVal h1 = Some d1" "digitVal h2 = Some d2" "digitVal m1 = Some d3" "digitVal m2 = Some d4"
    and bs: "10 * d3 + d4 \<le> 59" and a: "a = (10 * d1 + d2) * 60 + (10 * d3 + d4)"
    by (rule hhmmToMinutes_SomeD)
  from assms(2) obtain k1 k2 n1 n2 e1 e2 e3 e4 where t: "t = [k1, k2, CHR '':'', n1, n2]"
    and es: "digitVal k1 = Some e1" "digitVal k2 = Some e2" "digitVal n1 = Some e3" "digitVal n2 = Some e4"
    and bt: "10 * e3 + e4 \<le> 59" and b: "b = (10 * e1 + e2) * 60 + (10 * e3 + e4)"
    by (rule hhmmToMinutes_SomeD)
  have r: "0 \<le> d1" "d1 \<le> 9" "0 \<le> d2" "d2 \<le> 9" "0 \<le> d3" "d3 \<le> 9" "0 \<le> d4" "d4 \<le> 9"
       "0 \<le> e1" "e1 \<le> 9" "0 \<le> e2" "e2 \<le> 9" "0 \<le> e3" "e3 \<le> 9" "0 \<le> e4" "e4 \<le> 9"
    using ds es by (auto dest: digitVal_SomeD)
  have "s \<le> t \<longleftrightarrow> d1 < e1 \<or> d1 = e1 \<and> (d2 < e2 \<or> d2 = e2 \<and> (d3 < e3 \<or> d3 = e3 \<and> d4 \<le> e4))"
    unfolding s t
    by (auto simp add: char_less_digit[OF ds(1) es(1)] char_eq_digit[OF ds(1) es(1)]
        char_less_digit[OF ds(2) es(2)] char_eq_digit[OF ds(2) es(2)]
        char_less_digit[OF ds(3) es(3)] char_eq_digit[OF ds(3) es(3)]
        char_less_digit[OF ds(4) es(4)] char_eq_digit[OF ds(4) es(4)] le_less)
  also have "\<dots> \<longleftrightarrow> a \<le> b"
    unfolding a b using r bs bt by auto
  finally show ?thesis .
qed

section \<open>Properties of the per-channel classification\<close>

lemma set_enabledTimes:
  "set (enabledTimes schedules) = {time s | s. s \<in> set schedules \<and> enabled s \<and> time s \<noteq> []}"
  by (auto simp: enabledTimes_def)

lemma sorted_enabledTimes: "sorted (enabledTimes schedules)"
  by (simp add: enabledTimes_def)

lemma sorted_slotTimes: "sorted (slotTimes channel)"
  by (simp add: slotTimes_def sorted_enabledTimes split: option.splits)

lemma getChannelState_slotTimes:
  "getChannelState channel nowMinutes mi =
     (if slotTimes channel = [] then (Default, None)
      else
        (case findActive (slotTimes channel) nowMinutes (validInterval mi) of
           Some t \<Rightarrow> (Current, Some t)
         | None \<Rightarrow>
             (case findUpcoming (slotTimes channel) nowMinutes of
                Some t \<Rightarrow> (Next, Some t)
              | None \<Rightarrow> (Next, Some (hd (slotTimes channel))))))"
proof (cases "autoSendSchedules channel")
  case None
  then show ?thesis by (simp add: getChannelState_def slotTimes_def)
next
  case (Some schedules)
  have e: "enabledTimes [] = []" by (simp add: enabledTimes_def)
  show ?thesis
  proof (cases "enabledTimes schedules")
    case Nil
    with Some e show ?thesis by (simp add: getChannelState_def slotTimes_def)
  next
    case (Cons t0 rest)
    with Some e show ?thesis
      by (auto simp add: getChannelState_def slotTimes_def
               simp del: findActive.simps findUpcoming.simps cong: option.case_cong)
  qed
qed

lemma findActive_None_iff:
  "findActive ts nowMinutes w = None \<longleftrightarrow> (\<forall>t \<in> set ts. \<not> slotActive nowMinutes w t)"
  by (induction ts) (auto simp: slotActive_def split: option.splits)

lemma findActive_Some:
  assumes "findActive ts nowMinutes w = Some t" "sorted ts"
  shows "t \<in> set ts \<and> slotActive nowMinutes w t \<and>
         (\<forall>t' \<in> set ts. slotActive nowMinutes w t' \<longrightarrow> t \<le> t')"
  using assms
  by (induction ts) (auto simp: slotActive_def split: option.splits if_splits)



lemma isActive_specActive: "isActive T W nowMinutes = specActive T W nowMinutes"
  by (simp add: isActive_def specActive_def Let_def)

lemma getChannelState_Current_iff:
  "fst (getChannelState channel nowMinutes mi) = Current \<longleftrightarrow>
     (\<exists>t \<in> set (slotTimes channel). slotActive nowMinutes (validInterval mi) t)"
proof (cases "findActive (slotTimes channel) nowMinutes (validInterval mi)")
  case None
  then have "fst (getChannelState channel nowMinutes mi) \<noteq> Current"
    by (simp add: getChannelState_slotTimes split: option.splits)
  with None show ?thesis by (simp add: findActive_None_iff)
next
  case (Some t)
  then have "slotTimes channel \<noteq> []" by auto
  with Some have "fst (getChannelState channel nowMinutes mi) = Current"
    by (simp add: getChannelState_slotTimes)
  with findActive_Some[OF Some sorted_slotTimes] show ?thesis by auto
qed

lemma slotActive_spec:
  "slotActive nowMinutes W t \<longleftrightarrow> (\<exists>T. hhmmToMinutes t = Some T \<and> specActive T W nowMinutes)"
  by (simp add: slotActive_def isActive_specActive split: option.splits)

lemma getChannelState_single:
  assumes "slotTimes channel = [t]" "hhmmToMinutes t = Some T"
  shows "getChannelState channel nowMinutes mi = (Current, Some t) \<longleftrightarrow>
         specActive T (validInterval mi) nowMinutes"
  using assms by (simp add: getChannelState_slotTimes isActive_specActive)

lemma slotTimes_2350: "slotTimes (channelWith ''A'' [''23:50'']) = [''23:50'']"
  by (simp add: slotTimes_def channelWith_def slotAt_def enabledTimes_def)

lemma hhmm_2350: "hhmmToMinutes ''23:50'' = Some 1430"
  by (simp add: digitVal_def)

lemma validInterval_20: "validInterval (Some 20) = 20"
  by (simp add: validInterval_def)

lemma wrap_2350:
  assumes "0 \<le> n" "n < 1440"
  shows "fst (getChannelState (channelWith ''A'' [''23:50'']) n (Some 20)) = Current \<longleftrightarrow>
         n \<in> {1430..1439} \<union> {0..9}"
proof -
  have "fst (getChannelState (channelWith ''A'' [''23:50'']) n (Some 20)) = Current \<longleftrightarrow>
        specActive 1430 20 n"
    by (simp add: getChannelState_Current_iff slotTimes_2350 slotActive_spec hhmm_2350
        validInterval_20 del: hhmmToMinutes.simps)
  also have "\<dots> \<longleftrightarrow> n \<in> {1430..1439} \<union> {0..9}"
    using assms by (auto simp: specActive_def)
  finally show ?thesis .
qed

text \<open>
  Claim C2.  The per-channel classification reports \<open>current\<close> exactly when some enabled
  slot of the channel, with time \<open>T\<close> and window \<open>W\<close>, satisfies the activity test of the
  specification: \<open>T \<le> now < T + W\<close> when \<open>T + W < 1440\<close>, and \<open>now \<ge> T\<close> or
  \<open>now < (T + W) mod 1440\<close> otherwise.  For a channel with one slot the reported slot is
  that slot.  A slot at 23:50 with window 20 is active exactly for now in
  \<open>{1430..1439} \<union> {0..9}\<close>.
\<close>

theorem C2_active_window:
  "(fst (getChannelState channel nowMinutes mi) = Current \<longleftrightarrow>
      (\<exists>t \<in> set (slotTimes channel). \<exists>T. hhmmToMinutes t = Some T \<and>
          specActive T (validInterval mi) nowMinutes))
   \<and> (slotTimes channel = [t] \<and> hhmmToMinutes t = Some T \<longrightarrow>
        (getChannelState channel nowMinutes mi = (Current, Some t) \<longleftrightarrow>
         specActive T (validInterval mi) nowMinutes))
   \<and> (\<forall>n \<in> {0..<1440}.
        fst (getChannelState (channelWith ''A'' [''23:50'']) n (Some 20)) = Current \<longleftrightarrow>
        n \<in> {1430..1439} \<union> {0..9})"
proof (intro conjI)
  show "fst (getChannelState channel nowMinutes mi) = Current \<longleftrightarrow>
      (\<exists>t \<in> set (slotTimes channel). \<exists>T. hhmmToMinutes t = Some T \<and>
          specActive T (validInterval mi) nowMinutes)"
    by (simp add: getChannelState_Current_iff slotActive_spec)
  show "slotTimes channel = [t] \<and> hhmmToMinutes t = Some T \<longrightarrow>
        (getChannelState channel nowMinutes mi = (Current, Some t) \<longleftrightarrow>
         specActive T (validInterval mi) nowMinutes)"
    using getChannelState_single by blast
  show "\<forall>n \<in> {0..<1440}.
        fst (getChannelState (channelWith ''A'' [''23:50'']) n (Some 20)) = Current \<longleftrightarrow>
        n \<in> {1430..1439} \<union> {0..9}"
    using wrap_2350 by simp
qed

text \<open>The theorem applied to the slot at 23:50 at five past midnight and at 11:40.\<close>

theorem C2_active_window_witness:
  "slotTimes (channelWith ''A'' [''23:50'']) = [''23:50''] \<and>
   hhmmToMinutes ''23:50'' = Some 1430 \<and>
   (5::int) \<in> {0..<1440} \<and>
   getChannelState (channelWith ''A'' [''23:50'']) 5 (Some 20) = (Current, Some ''23:50'') \<and>
   specActive 1430 (validInterval (Some 20)) 5 \<and>
   fst (getChannelState (channelWith ''A'' [''23:50'']) 5 (Some 20)) = Current \<and>
   fst (getChannelState (channelWith ''A'' [''23:50'']) 700 (Some 20)) \<noteq> Current"
  using C2_active_window [of "channelWith ''A'' [''23:50'']" 5 "Some 20" "''23:50''" 1430]
    slotTimes_2350 hhmm_2350
  by (simp add: specActive_def validInterval_def)

lemma validInterval_idem: "validInterval (Some (validInterval mi)) = validInterval mi"
  by (auto simp: validInterval_def split: option.splits)

lemma getChannelState_window:
  "getChannelState channel nowMinutes (Some (validInterval mi)) =
   getChannelState channel nowMinutes mi"
  by (simp add: getChannelState_slotTimes validInterval_idem)

lemma calculateChannelStates_window:
  "calculateChannelStates channels (Some (validInterval mi)) nowMinutes =
   calculateChannelStates channels mi nowMinutes"
proof -
  have c: "currentStep nowMinutes (Some (validInterval mi)) = currentStep nowMinutes mi"
    by (intro ext) (simp add: currentStep_def getChannelState_window)
  have n: "nextStep cur nowMinutes (Some (validInterval mi)) = nextStep cur nowMinutes mi" for cur
    by (intro ext) (simp add: nextStep_def getChannelState_window)
  show ?thesis
    by (simp add: calculateChannelStates_def findCurrentChannel_def findNextChannel_def
        findPreviousChannel_def c n validInterval_idem)
qed

text \<open>
  Claim C9.  The window used by the classifier lies in \<open>[1, 60]\<close>; a supplied value in
  \<open>[1, 60]\<close> is used unchanged; an absent or non-numeric value gives the default 11; and
  both the per-channel classification and the fleet-wide reduction depend on the supplied
  value only through the clamped window.
\<close>

theorem C9_window_clamped:
  "1 \<le> validInterval mi \<and> validInterval mi \<le> 60
   \<and> (\<forall>n. 1 \<le> n \<and> n \<le> 60 \<longrightarrow> validInterval (Some n) = n)
   \<and> validInterval None = 11
   \<and> getChannelState channel nowMinutes mi =
       getChannelState channel nowMinutes (Some (validInterval mi))
   \<and> calculateChannelStates channels mi nowMinutes =
       calculateChannelStates channels (Some (validInterval mi)) nowMinutes"
  by (simp add: getChannelState_window calculateChannelStates_window)
     (auto simp: validInterval_def split: option.splits)

text \<open>The clamp at values inside, above and below the range, at zero and at an absent value.\<close>

theorem C9_window_clamped_witness:
  "validInterval (Some 30) = 30 \<and> validInterval (Some 100) = 60 \<and> validInterval (Some (-5)) = 1
   \<and> validInterval (Some 0) = 11 \<and> validInterval None = 11"
  using C9_window_clamped [of "Some 30"] by (simp add: validInterval_def)

lemma getChannelState_first_active:
  assumes "t0 \<in> set (slotTimes channel)" "slotActive nowMinutes (validInterval mi) t0"
  shows "\<exists>t T. getChannelState channel nowMinutes mi = (Current, Some t)
           \<and> t \<in> set (slotTimes channel) \<and> hhmmToMinutes t = Some T
           \<and> specActive T (validInterval mi) nowMinutes
           \<and> (\<forall>t' \<in> set (slotTimes channel). \<forall>T'. hhmmToMinutes t' = Some T' \<longrightarrow>
                 specActive T' (validInterval mi) nowMinutes \<longrightarrow> T \<le> T')"
proof -
  let ?W = "validInterval mi"
  from assms have "findActive (slotTimes channel) nowMinutes ?W \<noteq> None"
    by (auto simp: findActive_None_iff)
  then obtain t where t: "findActive (slotTimes channel) nowMinutes ?W = Some t" by auto
  from findActive_Some[OF t sorted_slotTimes]
  have mem: "t \<in> set (slotTimes channel)" and act: "slotActive nowMinutes ?W t"
    and least: "\<forall>t' \<in> set (slotTimes channel). slotActive nowMinutes ?W t' \<longrightarrow> t \<le> t'"
    by auto
  from act obtain T where T: "hhmmToMinutes t = Some T" "specActive T ?W nowMinutes"
    by (auto simp: slotActive_spec)
  have "T \<le> T'" if "t' \<in> set (slotTimes channel)" "hhmmToMinutes t' = Some T'"
    "specActive T' ?W nowMinutes" for t' T'
  proof -
    from that have "slotActive nowMinutes ?W t'" by (auto simp: slotActive_spec)
    with least that(1) have "t \<le> t'" by blast
    with hhmmToMinutes_le_iff[OF T(1) that(2)] show ?thesis by simp
  qed
  moreover from mem t have "getChannelState channel nowMinutes mi = (Current, Some t)"
    by (auto simp: getChannelState_slotTimes)
  ultimately show ?thesis using mem T by blast
qed

lemma slotTimes_schedules:
  assumes "autoSendEnabled channel = Some True" "autoSendSchedules channel = Some schedules"
  shows "set (slotTimes channel) = {time s | s. s \<in> set schedules \<and> enabled s \<and> time s \<noteq> []}"
  using assms by (simp add: slotTimes_def set_enabledTimes)

lemma hhmmToMinutes_nonempty: "hhmmToMinutes t = Some T \<Longrightarrow> t \<noteq> []"
  by auto

lemma enabled_slot_time:
  assumes "autoSendEnabled channel = Some True" "autoSendSchedules channel = Some schedules"
    "s \<in> set schedules" "enabled s" "hhmmToMinutes (time s) = Some T"
  shows "time s \<in> set (slotTimes channel)"
  using assms hhmmToMinutes_nonempty[of "time s" T]
  by (auto simp: slotTimes_schedules)

lemma slot_time_enabled:
  assumes "autoSendEnabled channel = Some True" "autoSendSchedules channel = Some schedules"
    "t \<in> set (slotTimes channel)"
  obtains s where "s \<in> set schedules" "enabled s" "time s = t"
  using assms by (auto simp: slotTimes_schedules)

text \<open>
  Claim C3, as amended.  On an automation-enabled channel two or more of whose enabled
  slots are active at now (their parsed time \<open>T\<close> passes the activity test of the
  specification), the per-channel classification reports \<open>current\<close>, and the
  representative is an enabled active slot whose time value is the smallest among the
  enabled active slots: the first loop walks the sorted times upwards and returns at the
  first active one.
\<close>

theorem C3_smallest_active_wins:
  assumes en: "autoSendEnabled channel = Some True"
    and ss: "autoSendSchedules channel = Some schedules"
    and two: "2 \<le> length (filter (\<lambda>s. enabled s \<and>
                 (\<exists>T. hhmmToMinutes (time s) = Some T \<and>
                      specActive T (validInterval mi) nowMinutes)) schedules)"
  shows "\<exists>s \<in> set schedules. \<exists>T.
             enabled s
           \<and> getChannelState channel nowMinutes mi = (Current, Some (time s))
           \<and> hhmmToMinutes (time s) = Some T
           \<and> specActive T (validInterval mi) nowMinutes
           \<and> (\<forall>s' \<in> set schedules. \<forall>T'.
                 enabled s' \<and> hhmmToMinutes (time s') = Some T'
                 \<and> specActive T' (validInterval mi) nowMinutes \<longrightarrow> T \<le> T')"
proof -
  let ?W = "validInterval mi"
  from two have "filter (\<lambda>s. enabled s \<and>
                 (\<exists>T. hhmmToMinutes (time s) = Some T \<and> specActive T ?W nowMinutes)) schedules
                 \<noteq> []"
    by auto
  then obtain s0 T0 where s0: "s0 \<in> set schedules" "enabled s0"
    "hhmmToMinutes (time s0) = Some T0" "specActive T0 ?W nowMinutes"
    by (auto simp: filter_empty_conv)
  then have "time s0 \<in> set (slotTimes channel)" "slotActive nowMinutes ?W (time s0)"
    using enabled_slot_time[OF en ss] by (auto simp: slotActive_spec)
  from getChannelState_first_active[OF this] obtain t T where
    g: "getChannelState channel nowMinutes mi = (Current, Some t)"
    and t: "t \<in> set (slotTimes channel)" "hhmmToMinutes t = Some T" "specActive T ?W nowMinutes"
    and least: "\<forall>t' \<in> set (slotTimes channel). \<forall>T'. hhmmToMinutes t' = Some T' \<longrightarrow>
                 specActive T' ?W nowMinutes \<longrightarrow> T \<le> T'"
    by blast
  from slot_time_enabled[OF en ss t(1)] obtain s where
    s: "s \<in> set schedules" "enabled s" "time s = t" by blast
  have "T \<le> T'" if "s' \<in> set schedules" "enabled s'" "hhmmToMinutes (time s') = Some T'"
    "specActive T' ?W nowMinutes" for s' T'
    using least enabled_slot_time[OF en ss that(1-3)] that(3,4) by blast
  with g t s show ?thesis by blast
qed

lemma slotTimes_0800_0805:
  "slotTimes (channelWith ''A'' [''08:00'', ''08:05'']) = [''08:00'', ''08:05'']"
  by (simp add: slotTimes_def channelWith_def slotAt_def enabledTimes_def)

lemma hhmm_0800: "hhmmToMinutes ''08:00'' = Some 480"
  by (simp add: digitVal_def)

lemma hhmm_0805: "hhmmToMinutes ''08:05'' = Some 485"
  by (simp add: digitVal_def)

lemma validInterval_11: "validInterval (Some 11) = 11"
  by (simp add: validInterval_def)

text \<open>
  Claim C3 as stated fails: with slots at 08:00 and 08:05, window 11 and now = 08:07 both
  slots are active and the representative is 08:00, not the larger 08:05.
\<close>

theorem C3_largest_counterexample:
  "slotTimes (channelWith ''A'' [''08:00'', ''08:05'']) = [''08:00'', ''08:05'']
   \<and> hhmmToMinutes ''08:00'' = Some 480 \<and> hhmmToMinutes ''08:05'' = Some 485
   \<and> specActive 480 (validInterval (Some 11)) 487
   \<and> specActive 485 (validInterval (Some 11)) 487
   \<and> getChannelState (channelWith ''A'' [''08:00'', ''08:05'']) 487 (Some 11)
       = (Current, Some ''08:00'')
   \<and> snd (getChannelState (channelWith ''A'' [''08:00'', ''08:05'']) 487 (Some 11))
       \<noteq> Some ''08:05''"
  by (simp add: getChannelState_slotTimes slotTimes_0800_0805 hhmm_0800 hhmm_0805
      validInterval_11 specActive_def isActive_def del: hhmmToMinutes.simps)

lemma channelWith_fields:
  "autoSendEnabled (channelWith i ts) = Some True"
  "autoSendSchedules (channelWith i ts) = Some (map (slotAt ''slot'') ts)"
  "channel_id (channelWith i ts) = i"
  "enabled (slotAt j t)" "time (slotAt j t) = t"
  by (simp_all add: channelWith_def slotAt_def)

lemma state_0800_0805:
  "getChannelState (channelWith ''A'' [''08:00'', ''08:05'']) 487 (Some 11)
     = (Current, Some ''08:00'')"
  by (simp add: getChannelState_slotTimes slotTimes_0800_0805 hhmm_0800 hhmm_0805
      validInterval_11 isActive_def del: hhmmToMinutes.simps)

text \<open>
  The amended statement at the channel with enabled slots 08:00 and 08:05 at 08:07: both
  are active and the representative is the slot at 08:00.
\<close>

theorem C3_smallest_active_wins_witness:
  "autoSendEnabled (channelWith ''A'' [''08:00'', ''08:05'']) = Some True
   \<and> autoSendSchedules (channelWith ''A'' [''08:00'', ''08:05''])
       = Some [slotAt ''slot'' ''08:00'', slotAt ''slot'' ''08:05'']
   \<and> enabled (slotAt ''slot'' ''08:00'') \<and> enabled (slotAt ''slot'' ''08:05'')
   \<and> hhmmToMinutes (time (slotAt ''slot'' ''08:00'')) = Some 480
   \<and> hhmmToMinutes (time (slotAt ''slot'' ''08:05'')) = Some 485
   \<and> specActive 480 (validInterval (Some 11)) 487
   \<and> specActive 485 (validInterval (Some 11)) 487
   \<and> getChannelState (channelWith ''A'' [''08:00'', ''08:05'']) 487 (Some 11)
       = (Current, Some (time (slotAt ''slot'' ''08:00'')))"
proof -
  let ?ch = "channelWith ''A'' [''08:00'', ''08:05'']"
  let ?ss = "[slotAt ''slot'' ''08:00'', slotAt ''slot'' ''08:05'']"
  have en: "autoSendEnabled ?ch = Some True" and ss: "autoSendSchedules ?ch = Some ?ss"
    by (simp_all add: channelWith_fields)
  have a: "specActive 480 (validInterval (Some 11)) 487" "specActive 485 (validInterval (Some 11)) 487"
    by (simp_all add: specActive_def validInterval_11)
  have two: "2 \<le> length (filter (\<lambda>s. enabled s \<and>
                 (\<exists>T. hhmmToMinutes (time s) = Some T \<and>
                      specActive T (validInterval (Some 11)) 487)) ?ss)"
    using a by (simp add: channelWith_fields hhmm_0800 hhmm_0805 del: hhmmToMinutes.simps)
  from C3_smallest_active_wins [OF en ss two]
  have "\<exists>s \<in> set ?ss. enabled s \<and> getChannelState ?ch 487 (Some 11) = (Current, Some (time s))"
    by blast
  then have "getChannelState ?ch 487 (Some 11) = (Current, Some (time (slotAt ''slot'' ''08:00'')))"
    by (simp add: state_0800_0805 channelWith_fields)
  with en ss a show ?thesis
    by (simp add: channelWith_fields hhmm_0800 hhmm_0805 del: hhmmToMinutes.simps)
qed











lemma slotTimes_0900_1830:
  "slotTimes (channelWith ''A'' [''09:00'', ''18:30'']) = [''09:00'', ''18:30'']"
  by (simp add: slotTimes_def channelWith_def slotAt_def enabledTimes_def)







lemma states_0900_1830:
  "getChannelState (channelWith ''A'' [''09:00'', ''18:30'']) 600 None = (Next, Some ''18:30'')"
  "getChannelState (channelWith ''A'' [''09:00'', ''18:30'']) 1200 None = (Next, Some ''09:00'')"
  by code_simp+


lemma two_slot_scenario:
  "calculateChannelStates [channelWith ''A'' [''08:00'', ''20:00'']] (Some 11) 485 ''A''
     = Some \<lparr>channelId = ''A'', state = Current, timeSlot = Some ''08:00''\<rparr>"
  "calculateChannelStates [channelWith ''A'' [''08:00'', ''20:00'']] (Some 11) 1140 ''A''
     = Some \<lparr>channelId = ''A'', state = Next, timeSlot = Some ''20:00''\<rparr>"
  "calculateChannelStates [channelWith ''A'' [''08:00'', ''20:00'']] (Some 11) 1380 ''A''
     = Some \<lparr>channelId = ''A'', state = Next, timeSlot = Some ''08:00''\<rparr>"
  "findPreviousChannel [channelWith ''A'' [''08:00'', ''20:00'']]
      (findCurrentChannel [channelWith ''A'' [''08:00'', ''20:00'']] 1380 (Some 11)) 1380 (Some 11)
     = Some \<lparr>pickId = ''A'', pickSlot = ''20:00'', pickMinutes = 1200\<rparr>"
  by code_simp+

lemma getChannelState_states:
  "fst (getChannelState channel nowMinutes mi) \<in> {Current, Next, Default}"
  by (simp add: getChannelState_slotTimes split: option.splits)

text \<open>
  Claim C4 as stated fails at 23:00: the only channel of the fleet is also the fleet's next
  pick (its 08:00 slot, tomorrow), and the final loop tests next before previous, so the
  channel is reported \<open>next\<close> with slot 08:00 and not \<open>previous\<close> with slot 20:00.
\<close>

theorem C4_previous_counterexample:
  "calculateChannelStates [channelWith ''A'' [''08:00'', ''20:00'']] (Some 11) 1380 ''A''
     = Some \<lparr>channelId = ''A'', state = Next, timeSlot = Some ''08:00''\<rparr>
   \<and> calculateChannelStates [channelWith ''A'' [''08:00'', ''20:00'']] (Some 11) 1380 ''A''
     \<noteq> Some \<lparr>channelId = ''A'', state = Previous, timeSlot = Some ''20:00''\<rparr>"
  by (simp add: two_slot_scenario)

text \<open>
  Claim C4, as amended.  For the fleet of one automation-enabled channel with enabled slots
  at 08:00 and 20:00 and window 11: at 08:05 the channel is reported \<open>current\<close> with slot
  08:00; at 19:00 it is reported \<open>next\<close> with slot 20:00; at 23:00 it is reported
  \<open>next\<close> with slot 08:00, while the fleet's previous pick is its slot 20:00.
\<close>

theorem C4_scenario:
  "calculateChannelStates [channelWith ''A'' [''08:00'', ''20:00'']] (Some 11) 485 ''A''
     = Some \<lparr>channelId = ''A'', state = Current, timeSlot = Some ''08:00''\<rparr>
   \<and> calculateChannelStates [channelWith ''A'' [''08:00'', ''20:00'']] (Some 11) 1140 ''A''
     = Some \<lparr>channelId = ''A'', state = Next, timeSlot = Some ''20:00''\<rparr>
   \<and> calculateChannelStates [channelWith ''A'' [''08:00'', ''20:00'']] (Some 11) 1380 ''A''
     = Some \<lparr>channelId = ''A'', state = Next, timeSlot = Some ''08:00''\<rparr>
   \<and> findPreviousChannel [channelWith ''A'' [''08:00'', ''20:00'']]
        (findCurrentChannel [channelWith ''A'' [''08:00'', ''20:00'']] 1380 (Some 11))
        1380 (Some 11)
     = Some \<lparr>pickId = ''A'', pickSlot = ''20:00'', pickMinutes = 1200\<rparr>"
  by (simp add: two_slot_scenario)

section \<open>Properties of the fleet-wide reduction\<close>



lemma foldl_keepSmaller_None:
  assumes "\<And>acc x. step acc x = (case cand x of None \<Rightarrow> acc | Some p \<Rightarrow> keepSmaller acc p)"
  shows "foldl step a xs = None \<longleftrightarrow> a = None \<and> (\<forall>x \<in> set xs. cand x = None)"
proof (induction xs arbitrary: a)
  case Nil
  then show ?case by simp
next
  case (Cons x xs)
  have s: "step a x = (case cand x of None \<Rightarrow> a | Some p \<Rightarrow> keepSmaller a p)"
    by (rule assms)
  have "foldl step a (x # xs) = None \<longleftrightarrow>
          (case cand x of None \<Rightarrow> a | Some p \<Rightarrow> keepSmaller a p) = None
          \<and> (\<forall>x \<in> set xs. cand x = None)"
    using Cons.IH[of "step a x"] by (simp add: s)
  then show ?case
    by (cases "cand x"; cases a) (auto simp: keepSmaller_def)
qed

lemma foldl_keepSmaller_Some:
  assumes "\<And>acc x. step acc x = (case cand x of None \<Rightarrow> acc | Some p \<Rightarrow> keepSmaller acc p)"
    and "foldl step a xs = Some p"
  shows "(a = Some p \<or> (\<exists>x \<in> set xs. cand x = Some p))
       \<and> (\<forall>q. a = Some q \<longrightarrow> pickMinutes p \<le> pickMinutes q)
       \<and> (\<forall>x \<in> set xs. \<forall>q. cand x = Some q \<longrightarrow> pickMinutes p \<le> pickMinutes q)"
  using assms(2)
proof (induction xs arbitrary: a)
  case Nil
  then show ?case by simp
next
  case (Cons x xs)
  have s: "step a x = (case cand x of None \<Rightarrow> a | Some p \<Rightarrow> keepSmaller a p)"
    by (rule assms)
  from Cons.prems have f: "foldl step (step a x) xs = Some p" by simp
  note ih = Cons.IH[OF f]
  show ?case
  proof (cases "cand x")
    case None
    with s have "step a x = a" by simp
    with ih None show ?thesis by auto
  next
    case (Some c)
    with s have "step a x = keepSmaller a c" by simp
    with ih Some show ?thesis
      by (cases a) (auto simp: keepSmaller_def split: if_splits)
  qed
qed

lemma selectedBy_id:
  "channel_id c = channel_id c' \<Longrightarrow> selectedBy pick c = selectedBy pick c'"
  by (simp add: selectedBy_def split: option.splits)


lemma finalInfo_id:
  "channel_id c = channel_id c' \<Longrightarrow> finalInfo cur nxt prv c = finalInfo cur nxt prv c'"
  by (simp add: finalInfo_def selectedBy_id[of c c'] cong: option.case_cong)

lemma foldl_applyStates_Some:
  "foldl (applyStates cur nxt prv) m cs i = Some a \<Longrightarrow>
     m i = Some a \<or> (\<exists>c \<in> set cs. channel_id c = i \<and> a = finalInfo cur nxt prv c)"
proof (induction cs arbitrary: m)
  case Nil
  then show ?case by simp
next
  case (Cons c cs)
  from Cons.prems have "foldl (applyStates cur nxt prv) (applyStates cur nxt prv m c) cs i = Some a"
    by simp
  from Cons.IH[OF this] show ?case
    by (auto simp: applyStates_def split: if_splits)
qed

lemma foldl_applyStates_mem:
  "c \<in> set cs \<Longrightarrow>
     foldl (applyStates cur nxt prv) m cs (channel_id c) = Some (finalInfo cur nxt prv c)"
proof (induction cs arbitrary: m rule: rev_induct)
  case Nil
  then show ?case by simp
next
  case (snoc x xs)
  then show ?case
    by (cases "channel_id x = channel_id c") (auto simp: applyStates_def finalInfo_id[of x c])
qed

lemma finalInfo_Current:
  "state (finalInfo cur nxt prv c) = Current \<longleftrightarrow> (\<exists>p. cur = Some p \<and> channel_id c = pickId p)"
  by (auto simp: finalInfo_def selectedBy_def split: option.splits)

lemma finalInfo_Next:
  "state (finalInfo cur nxt prv c) = Next \<longleftrightarrow>
     selectedBy cur c = None \<and> (\<exists>p. nxt = Some p \<and> channel_id c = pickId p)"
  by (auto simp: finalInfo_def selectedBy_def split: option.splits)

lemma finalInfo_Previous:
  "state (finalInfo cur nxt prv c) = Previous \<longleftrightarrow>
     selectedBy cur c = None \<and> selectedBy nxt c = None
     \<and> (\<exists>p. prv = Some p \<and> channel_id c = pickId p)"
  by (auto simp: finalInfo_def selectedBy_def split: option.splits)

lemma calculateChannelStates_Some:
  assumes "calculateChannelStates channels mi nowMinutes i = Some a"
  shows "\<exists>c \<in> set channels. channel_id c = i \<and>
           a = finalInfo (findCurrentChannel channels nowMinutes mi)
                 (findNextChannel channels (findCurrentChannel channels nowMinutes mi) nowMinutes mi)
                 (findPreviousChannel channels (findCurrentChannel channels nowMinutes mi) nowMinutes mi) c"
  using foldl_applyStates_Some[of _ _ _ Map.empty channels i a] assms
  by (simp add: calculateChannelStates_def Let_def)

lemma calculateChannelStates_mem:
  assumes "c \<in> set channels"
  shows "calculateChannelStates channels mi nowMinutes (channel_id c) =
           Some (finalInfo (findCurrentChannel channels nowMinutes mi)
                 (findNextChannel channels (findCurrentChannel channels nowMinutes mi) nowMinutes mi)
                 (findPreviousChannel channels (findCurrentChannel channels nowMinutes mi) nowMinutes mi) c)"
  using foldl_applyStates_mem[OF assms] by (simp add: calculateChannelStates_def Let_def)

lemma at_most_one_Current:
  assumes "calculateChannelStates channels mi nowMinutes i = Some a" "state a = Current"
  shows "\<exists>p. findCurrentChannel channels nowMinutes mi = Some p \<and> pickId p = i
           \<and> timeSlot a = Some (pickSlot p)"
proof -
  from calculateChannelStates_Some[OF assms(1)] obtain c where
    c: "channel_id c = i"
    "a = finalInfo (findCurrentChannel channels nowMinutes mi)
           (findNextChannel channels (findCurrentChannel channels nowMinutes mi) nowMinutes mi)
           (findPreviousChannel channels (findCurrentChannel channels nowMinutes mi) nowMinutes mi) c"
    by blast
  with assms(2) obtain p where p: "findCurrentChannel channels nowMinutes mi = Some p"
    "channel_id c = pickId p"
    by (auto simp: finalInfo_Current)
  with c have "timeSlot a = Some (pickSlot p)"
    by (simp add: finalInfo_def selectedBy_def)
  with p c show ?thesis by simp
qed

text \<open>
  Claim C5.  In the map returned by the fleet-wide reduction at most one channel id has
  state \<open>current\<close>: two entries with that state are the same entry, the one of the
  current pick.
\<close>

theorem C5_at_most_one_current:
  "calculateChannelStates channels mi nowMinutes i = Some a \<and> state a = Current \<and>
   calculateChannelStates channels mi nowMinutes j = Some b \<and> state b = Current \<longrightarrow>
     i = j \<and> a = b \<and>
     (\<exists>p. findCurrentChannel channels nowMinutes mi = Some p \<and> pickId p = i
          \<and> timeSlot a = Some (pickSlot p))"
proof (intro impI, elim conjE)
  assume a: "calculateChannelStates channels mi nowMinutes i = Some a" "state a = Current"
    and b: "calculateChannelStates channels mi nowMinutes j = Some b" "state b = Current"
  from at_most_one_Current[OF a] at_most_one_Current[OF b] have ij: "i = j" by auto
  with a b have "a = b" by simp
  with ij at_most_one_Current[OF a] show "i = j \<and> a = b \<and>
     (\<exists>p. findCurrentChannel channels nowMinutes mi = Some p \<and> pickId p = i
          \<and> timeSlot a = Some (pickSlot p))" by simp
qed

lemma fleet_two_current:
  "calculateChannelStates [channelWith ''A'' [''08:00''], channelWith ''B'' [''08:05'']]
      (Some 11) 487 ''B''
     = Some \<lparr>channelId = ''B'', state = Current, timeSlot = Some ''08:05''\<rparr>"
  "calculateChannelStates [channelWith ''A'' [''08:00''], channelWith ''B'' [''08:05'']]
      (Some 11) 487 ''A''
     = Some \<lparr>channelId = ''A'', state = Previous, timeSlot = Some ''08:00''\<rparr>"
  "getChannelState (channelWith ''A'' [''08:00'']) 487 (Some 11) = (Current, Some ''08:00'')"
  "findCurrentChannel [channelWith ''A'' [''08:00''], channelWith ''B'' [''08:05'']] 487 (Some 11)
     = Some \<lparr>pickId = ''B'', pickSlot = ''08:05'', pickMinutes = 485\<rparr>"
  by code_simp+

text \<open>
  Two channels whose slots 08:00 and 08:05 are both active at 08:07: only the second is
  reported \<open>current\<close>.
\<close>

theorem C5_at_most_one_current_witness:
  "calculateChannelStates [channelWith ''A'' [''08:00''], channelWith ''B'' [''08:05'']]
      (Some 11) 487 ''B''
     = Some \<lparr>channelId = ''B'', state = Current, timeSlot = Some ''08:05''\<rparr>
   \<and> state \<lparr>channelId = ''B'', state = Current, timeSlot = Some ''08:05''\<rparr> = Current
   \<and> getChannelState (channelWith ''A'' [''08:00'']) 487 (Some 11) = (Current, Some ''08:00'')
   \<and> calculateChannelStates [channelWith ''A'' [''08:00''], channelWith ''B'' [''08:05'']]
      (Some 11) 487 ''A''
     = Some \<lparr>channelId = ''A'', state = Previous, timeSlot = Some ''08:00''\<rparr>
   \<and> (\<exists>p. findCurrentChannel [channelWith ''A'' [''08:00''], channelWith ''B'' [''08:05'']]
             487 (Some 11) = Some p
          \<and> pickId p = ''B'' \<and> Some ''08:05'' = Some (pickSlot p))"
  using C5_at_most_one_current
    [of "[channelWith ''A'' [''08:00''], channelWith ''B'' [''08:05'']]" "Some 11" 487 "''B''"
        "\<lparr>channelId = ''B'', state = Current, timeSlot = Some ''08:05''\<rparr>" "''B''"
        "\<lparr>channelId = ''B'', state = Current, timeSlot = Some ''08:05''\<rparr>"]
  by (simp add: fleet_two_current)

lemma at_most_one_Previous:
  assumes "calculateChannelStates channels mi nowMinutes i = Some a" "state a = Previous"
  shows "\<exists>p. findPreviousChannel channels (findCurrentChannel channels nowMinutes mi)
                nowMinutes mi = Some p
           \<and> pickId p = i \<and> timeSlot a = Some (pickSlot p)"
proof -
  from calculateChannelStates_Some[OF assms(1)] obtain c where
    c: "channel_id c = i"
    "a = finalInfo (findCurrentChannel channels nowMinutes mi)
           (findNextChannel channels (findCurrentChannel channels nowMinutes mi) nowMinutes mi)
           (findPreviousChannel channels (findCurrentChannel channels nowMinutes mi) nowMinutes mi) c"
    by blast
  with assms(2) obtain p where p:
    "findPreviousChannel channels (findCurrentChannel channels nowMinutes mi) nowMinutes mi = Some p"
    "channel_id c = pickId p"
    "selectedBy (findCurrentChannel channels nowMinutes mi) c = None"
    "selectedBy (findNextChannel channels (findCurrentChannel channels nowMinutes mi) nowMinutes mi) c
       = None"
    by (auto simp: finalInfo_Previous)
  with c have "timeSlot a = Some (pickSlot p)"
    by (simp add: finalInfo_def selectedBy_def)
  with p c show ?thesis by simp
qed

text \<open>
  Claim C10.  The per-channel classification returns \<open>current\<close>, \<open>next\<close> or
  \<open>default\<close>, never \<open>previous\<close>; in the map returned by the fleet-wide reduction at
  most one channel id has state \<open>previous\<close>.
\<close>

theorem C10_previous_only_fleet_wide:
  "fst (getChannelState channel nowMinutes mi) \<in> {Current, Next, Default}
   \<and> fst (getChannelState channel nowMinutes mi) \<noteq> Previous
   \<and> (calculateChannelStates channels mi nowMinutes i = Some a \<and> state a = Previous \<and>
      calculateChannelStates channels mi nowMinutes j = Some b \<and> state b = Previous \<longrightarrow>
        i = j \<and> a = b)"
proof (intro conjI impI)
  show s: "fst (getChannelState channel nowMinutes mi) \<in> {Current, Next, Default}"
    by (rule getChannelState_states)
  then show "fst (getChannelState channel nowMinutes mi) \<noteq> Previous" by auto
next
  assume h: "calculateChannelStates channels mi nowMinutes i = Some a \<and> state a = Previous \<and>
      calculateChannelStates channels mi nowMinutes j = Some b \<and> state b = Previous"
  then have "i = j" using at_most_one_Previous[of channels mi nowMinutes i a]
      at_most_one_Previous[of channels mi nowMinutes j b] by auto
  with h show "i = j" "a = b" by auto
qed

text \<open>
  In the same fleet the first channel is \<open>current\<close> for the per-channel classification
  and is the one channel reported \<open>previous\<close> by the reduction.
\<close>

theorem C10_previous_only_fleet_wide_witness:
  "calculateChannelStates [channelWith ''A'' [''08:00''], channelWith ''B'' [''08:05'']]
      (Some 11) 487 ''A''
     = Some \<lparr>channelId = ''A'', state = Previous, timeSlot = Some ''08:00''\<rparr>
   \<and> state \<lparr>channelId = ''A'', state = Previous, timeSlot = Some ''08:00''\<rparr> = Previous
   \<and> fst (getChannelState (channelWith ''A'' [''08:00'']) 487 (Some 11)) = Current
   \<and> calculateChannelStates [channelWith ''A'' [''08:00''], channelWith ''B'' [''08:05'']]
      (Some 11) 487 ''B''
     = Some \<lparr>channelId = ''B'', state = Current, timeSlot = Some ''08:05''\<rparr>"
  using C10_previous_only_fleet_wide
    [of "channelWith ''A'' [''08:00'']" 487 "Some 11"
        "[channelWith ''A'' [''08:00''], channelWith ''B'' [''08:05'']]" "''A''"
        "\<lparr>channelId = ''A'', state = Previous, timeSlot = Some ''08:00''\<rparr>" "''A''"
        "\<lparr>channelId = ''A'', state = Previous, timeSlot = Some ''08:00''\<rparr>"]
  by (simp add: fleet_two_current)

lemma nextStep_candidate:
  "nextStep cur nowMinutes mi acc c =
     (case nextCandidate cur nowMinutes mi c of None \<Rightarrow> acc | Some p \<Rightarrow> keepSmaller acc p)"
  by (cases "getChannelState c nowMinutes mi")
     (auto simp: nextStep_def nextCandidate_def Let_def split: option.splits)

lemma nextCandidate_Some_iff:
  "nextCandidate cur nowMinutes mi c = Some p \<longleftrightarrow>
     selectedBy cur c = None \<and>
     (\<exists>ts T. getChannelState c nowMinutes mi = (Next, Some ts) \<and> hhmmToMinutes ts = Some T \<and>
        p = \<lparr>pickId = channel_id c, pickSlot = ts,
             pickMinutes = minutesUntil T nowMinutes + nowMinutes\<rparr>)"
proof -
  have n: "(if m \<le> nowMinutes then m + 1440 else m) = minutesUntil m nowMinutes + nowMinutes"
    for m by (simp add: minutesUntil_def)
  obtain st slot where g: "getChannelState c nowMinutes mi = (st, slot)"
    by (cases "getChannelState c nowMinutes mi")
  show ?thesis
  proof (cases slot)
    case None
    with g show ?thesis by (simp add: nextCandidate_def)
  next
    case (Some ts)
    show ?thesis
    proof (cases "hhmmToMinutes ts")
      case None
      with g Some show ?thesis by (simp add: nextCandidate_def)
    next
      case (Some T)
      with g \<open>slot = Some ts\<close> show ?thesis
        by (auto simp: nextCandidate_def n)
    qed
  qed
qed

lemma findNextChannel_Some:
  assumes "findNextChannel channels cur nowMinutes mi = Some p"
  shows "(\<exists>c \<in> set channels. nextCandidate cur nowMinutes mi c = Some p)
       \<and> (\<forall>c \<in> set channels. \<forall>q. nextCandidate cur nowMinutes mi c = Some q \<longrightarrow>
             pickMinutes p \<le> pickMinutes q)"
  using foldl_keepSmaller_Some[of "nextStep cur nowMinutes mi" "nextCandidate cur nowMinutes mi"
      None channels p, OF nextStep_candidate] assms
  by (simp add: findNextChannel_def)

lemma findNextChannel_None_iff:
  "findNextChannel channels cur nowMinutes mi = None \<longleftrightarrow>
     (\<forall>c \<in> set channels. nextCandidate cur nowMinutes mi c = None)"
  using foldl_keepSmaller_None[of "nextStep cur nowMinutes mi" "nextCandidate cur nowMinutes mi"
      None channels, OF nextStep_candidate]
  by (simp add: findNextChannel_def)

lemma reported_Next:
  assumes "calculateChannelStates channels mi nowMinutes i = Some a" "state a = Next"
  shows "\<exists>p. findNextChannel channels (findCurrentChannel channels nowMinutes mi) nowMinutes mi
                = Some p
           \<and> pickId p = i \<and> timeSlot a = Some (pickSlot p)"
proof -
  from calculateChannelStates_Some[OF assms(1)] obtain c where
    c: "channel_id c = i"
    "a = finalInfo (findCurrentChannel channels nowMinutes mi)
           (findNextChannel channels (findCurrentChannel channels nowMinutes mi) nowMinutes mi)
           (findPreviousChannel channels (findCurrentChannel channels nowMinutes mi) nowMinutes mi) c"
    by blast
  with assms(2) obtain p where p:
    "findNextChannel channels (findCurrentChannel channels nowMinutes mi) nowMinutes mi = Some p"
    "channel_id c = pickId p"
    "selectedBy (findCurrentChannel channels nowMinutes mi) c = None"
    by (auto simp: finalInfo_Next)
  with c have "timeSlot a = Some (pickSlot p)"
    by (simp add: finalInfo_def selectedBy_def)
  with p c show ?thesis by simp
qed

lemma global_next_minimal:
  assumes "calculateChannelStates channels mi nowMinutes i = Some a" "state a = Next"
  shows "\<exists>c \<in> set channels. \<exists>ts T.
           channel_id c = i
         \<and> selectedBy (findCurrentChannel channels nowMinutes mi) c = None
         \<and> getChannelState c nowMinutes mi = (Next, Some ts)
         \<and> hhmmToMinutes ts = Some T
         \<and> timeSlot a = Some ts
         \<and> (\<forall>c' \<in> set channels. \<forall>ts' T'.
               selectedBy (findCurrentChannel channels nowMinutes mi) c' = None
             \<and> getChannelState c' nowMinutes mi = (Next, Some ts')
             \<and> hhmmToMinutes ts' = Some T'
             \<longrightarrow> minutesUntil T nowMinutes \<le> minutesUntil T' nowMinutes)"
proof -
  let ?cur = "findCurrentChannel channels nowMinutes mi"
  from reported_Next[OF assms] obtain p where
    p: "findNextChannel channels ?cur nowMinutes mi = Some p" "pickId p = i"
       "timeSlot a = Some (pickSlot p)" by blast
  from findNextChannel_Some[OF p(1)] obtain c where
    c: "c \<in> set channels" "nextCandidate ?cur nowMinutes mi c = Some p"
    and least: "\<forall>c' \<in> set channels. \<forall>q. nextCandidate ?cur nowMinutes mi c' = Some q \<longrightarrow>
             pickMinutes p \<le> pickMinutes q"
    by blast
  from c(2) obtain ts T where
    ts: "selectedBy ?cur c = None" "getChannelState c nowMinutes mi = (Next, Some ts)"
      "hhmmToMinutes ts = Some T"
      "p = \<lparr>pickId = channel_id c, pickSlot = ts,
            pickMinutes = minutesUntil T nowMinutes + nowMinutes\<rparr>"
    by (auto simp: nextCandidate_Some_iff)
  have "minutesUntil T nowMinutes \<le> minutesUntil T' nowMinutes"
    if "c' \<in> set channels" "selectedBy ?cur c' = None"
      "getChannelState c' nowMinutes mi = (Next, Some ts')" "hhmmToMinutes ts' = Some T'"
    for c' ts' T'
  proof -
    from that have "nextCandidate ?cur nowMinutes mi c' =
        Some \<lparr>pickId = channel_id c', pickSlot = ts',
              pickMinutes = minutesUntil T' nowMinutes + nowMinutes\<rparr>"
      by (simp add: nextCandidate_Some_iff)
    with least that(1) ts(4) show ?thesis by fastforce
  qed
  with c(1) ts p show ?thesis by auto
qed

lemma global_next_exists:
  assumes "c \<in> set channels"
    "selectedBy (findCurrentChannel channels nowMinutes mi) c = None"
    "getChannelState c nowMinutes mi = (Next, Some ts)" "hhmmToMinutes ts = Some T"
  shows "\<exists>i a. calculateChannelStates channels mi nowMinutes i = Some a \<and> state a = Next"
proof -
  let ?cur = "findCurrentChannel channels nowMinutes mi"
  from assms have "nextCandidate ?cur nowMinutes mi c \<noteq> None"
    by (simp add: nextCandidate_Some_iff[THEN iffD2] del: not_None_eq)
  with assms(1) have "findNextChannel channels ?cur nowMinutes mi \<noteq> None"
    by (auto simp: findNextChannel_None_iff simp del: not_None_eq)
  then obtain p where p: "findNextChannel channels ?cur nowMinutes mi = Some p" by auto
  from findNextChannel_Some[OF p] obtain c0 where
    c0: "c0 \<in> set channels" "nextCandidate ?cur nowMinutes mi c0 = Some p" by blast
  then have s: "selectedBy ?cur c0 = None" "channel_id c0 = pickId p"
    by (auto simp: nextCandidate_Some_iff)
  with p have "state (finalInfo ?cur (findNextChannel channels ?cur nowMinutes mi)
      (findPreviousChannel channels ?cur nowMinutes mi) c0) = Next"
    by (simp add: finalInfo_Next)
  with calculateChannelStates_mem[OF c0(1), of mi nowMinutes] show ?thesis by blast
qed

text \<open>
  Claim C6.  A channel reported \<open>next\<close> by the fleet-wide reduction is a channel other
  than the current pick whose per-channel state is \<open>next\<close>, reported with its own slot,
  and its minutes until it fires (\<open>time - now\<close> when \<open>time > now\<close>, else
  \<open>time + 1440 - now\<close>) are the fewest among all such channels; and when such a channel
  exists, some channel is reported \<open>next\<close>.
\<close>

theorem C6_global_next:
  "(calculateChannelStates channels mi nowMinutes i = Some a \<and> state a = Next \<longrightarrow>
      (\<exists>c \<in> set channels. \<exists>ts T.
           channel_id c = i
         \<and> selectedBy (findCurrentChannel channels nowMinutes mi) c = None
         \<and> getChannelState c nowMinutes mi = (Next, Some ts)
         \<and> hhmmToMinutes ts = Some T
         \<and> timeSlot a = Some ts
         \<and> (\<forall>c' \<in> set channels. \<forall>ts' T'.
               selectedBy (findCurrentChannel channels nowMinutes mi) c' = None
             \<and> getChannelState c' nowMinutes mi = (Next, Some ts')
             \<and> hhmmToMinutes ts' = Some T'
             \<longrightarrow> minutesUntil T nowMinutes \<le> minutesUntil T' nowMinutes)))
   \<and> ((\<exists>c \<in> set channels. \<exists>ts T.
           selectedBy (findCurrentChannel channels nowMinutes mi) c = None
         \<and> getChannelState c nowMinutes mi = (Next, Some ts)
         \<and> hhmmToMinutes ts = Some T) \<longrightarrow>
       (\<exists>i a. calculateChannelStates channels mi nowMinutes i = Some a \<and> state a = Next))"
  using global_next_minimal[of channels mi nowMinutes i a]
    global_next_exists[of _ channels nowMinutes mi]
  by blast

lemma fleet_three:
  "calculateChannelStates
     [channelWith ''A'' [''08:00''], channelWith ''B'' [''20:00''], channelWith ''C'' [''12:00'']]
     (Some 11) 600 ''C''
     = Some \<lparr>channelId = ''C'', state = Next, timeSlot = Some ''12:00''\<rparr>"
  "calculateChannelStates
     [channelWith ''A'' [''08:00''], channelWith ''B'' [''20:00''], channelWith ''C'' [''12:00'']]
     (Some 11) 600 ''A''
     = Some \<lparr>channelId = ''A'', state = Previous, timeSlot = Some ''08:00''\<rparr>"
  "calculateChannelStates
     [channelWith ''A'' [''08:00''], channelWith ''B'' [''20:00''], channelWith ''C'' [''12:00'']]
     (Some 11) 600 ''B''
     = Some \<lparr>channelId = ''B'', state = Default, timeSlot = None\<rparr>"
  "findCurrentChannel
     [channelWith ''A'' [''08:00''], channelWith ''B'' [''20:00''], channelWith ''C'' [''12:00'']]
     600 (Some 11) = None"
  "getChannelState (channelWith ''A'' [''08:00'']) 600 (Some 11) = (Next, Some ''08:00'')"
  "getChannelState (channelWith ''B'' [''20:00'']) 600 (Some 11) = (Next, Some ''20:00'')"
  "getChannelState (channelWith ''C'' [''12:00'']) 600 (Some 11) = (Next, Some ''12:00'')"
  "findPreviousChannel
     [channelWith ''A'' [''08:00''], channelWith ''B'' [''20:00''], channelWith ''C'' [''12:00'']]
     None 600 (Some 11) = Some \<lparr>pickId = ''A'', pickSlot = ''08:00'', pickMinutes = 480\<rparr>"
  by code_simp+

text \<open>
  Three channels with one slot each, at 08:00, 20:00 and 12:00, at now = 10:00: all three
  are \<open>next\<close> per channel, with 1320, 600 and 120 minutes to go; the third is reported.
\<close>

theorem C6_global_next_witness:
  "calculateChannelStates
     [channelWith ''A'' [''08:00''], channelWith ''B'' [''20:00''], channelWith ''C'' [''12:00'']]
     (Some 11) 600 ''C''
     = Some \<lparr>channelId = ''C'', state = Next, timeSlot = Some ''12:00''\<rparr>
   \<and> state \<lparr>channelId = ''C'', state = Next, timeSlot = Some ''12:00''\<rparr> = Next
   \<and> getChannelState (channelWith ''A'' [''08:00'']) 600 (Some 11) = (Next, Some ''08:00'')
   \<and> getChannelState (channelWith ''B'' [''20:00'']) 600 (Some 11) = (Next, Some ''20:00'')
   \<and> getChannelState (channelWith ''C'' [''12:00'']) 600 (Some 11) = (Next, Some ''12:00'')
   \<and> minutesUntil 480 600 = 1320 \<and> minutesUntil 1200 600 = 600 \<and> minutesUntil 720 600 = 120
   \<and> (\<exists>i a. calculateChannelStates
        [channelWith ''A'' [''08:00''], channelWith ''B'' [''20:00''], channelWith ''C'' [''12:00'']]
        (Some 11) 600 i = Some a \<and> state a = Next)"
proof -
  let ?fleet = "[channelWith ''A'' [''08:00''], channelWith ''B'' [''20:00''],
                 channelWith ''C'' [''12:00'']]"
  have "hhmmToMinutes ''12:00'' = Some 720" by (simp add: digitVal_def)
  then have "\<exists>c \<in> set ?fleet. \<exists>ts T.
           selectedBy (findCurrentChannel ?fleet 600 (Some 11)) c = None
         \<and> getChannelState c 600 (Some 11) = (Next, Some ts)
         \<and> hhmmToMinutes ts = Some T"
    by (intro bexI[of _ "channelWith ''C'' [''12:00'']"] exI[of _ "''12:00''"] exI[of _ 720])
       (simp_all add: fleet_three selectedBy_def del: hhmmToMinutes.simps)
  with C6_global_next [of ?fleet "Some 11" 600]
  have "\<exists>i a. calculateChannelStates ?fleet (Some 11) 600 i = Some a \<and> state a = Next"
    by blast
  then show ?thesis
    by (simp add: fleet_three minutesUntil_def)
qed





























lemma slotTimes_single: "slotTimes (channelWith i [t0]) = (if t0 = [] then [] else [t0])"
  by (simp add: slotTimes_def channelWith_def slotAt_def enabledTimes_def)







section \<open>Properties of the tick processor\<close>

lemma processSlot_id: "slot_id (fst (processSlot g now cid s)) = slot_id s"
  by (simp add: processSlot_def)

lemma processSlot_keys:
  "f \<in> set (snd (processSlot g now cid s)) \<Longrightarrow> fst f = cid \<and> fst (snd f) = slot_id s"
  by (auto simp: processSlot_def split: if_splits)

lemma processSlot_length: "length (snd (processSlot g now cid s)) \<le> 1"
  by (simp add: processSlot_def)

lemma processSlot_fired:
  "snd (processSlot g now cid s) \<noteq> [] \<Longrightarrow> firedToday now (fst (processSlot g now cid s))"
  by (auto simp: processSlot_def firedToday_def split: if_splits)

lemma processSlot_firedToday_mono:
  "firedToday now' s \<Longrightarrow> date now' = date now \<Longrightarrow> firedToday now' (fst (processSlot g now cid s))"
  by (auto simp: processSlot_def firedToday_def split: option.splits)

lemma processSlot_skip:
  "firedToday now' s \<Longrightarrow> date now' = date now \<Longrightarrow> snd (processSlot g now cid s) = []"
  by (auto simp: processSlot_def firedToday_def split: option.splits)

lemma processSlot_again:
  "snd (processSlot g2 now cid (fst (processSlot g1 now cid s))) = []"
  by (auto simp: processSlot_def firedToday_def isDue_def)

lemma processSlot_same_date:
  assumes "date now2 = date now1"
  shows "length (snd (processSlot g1 now1 cid s)
                 @ snd (processSlot g2 now2 cid (fst (processSlot g1 now1 cid s)))) \<le> 1"
proof (cases "snd (processSlot g1 now1 cid s) = []")
  case True
  then show ?thesis using processSlot_length[of g2 now2 cid] by simp
next
  case False
  from processSlot_fired[OF False] assms
  have "snd (processSlot g2 now2 cid (fst (processSlot g1 now1 cid s))) = []"
    by (intro processSlot_skip[of now1]) simp_all
  then show ?thesis using processSlot_length[of g1 now1 cid s] by simp
qed

lemma processChannel_again:
  "snd (processChannel g2 now (fst (processChannel g1 now channel))) = []"
  by (auto simp: processChannel_def Let_def processSlot_again)

lemma processChannel_fst:
  "tick_channel_id (fst (processChannel g now channel)) = tick_channel_id channel
   \<and> automationEnabled (fst (processChannel g now channel)) = automationEnabled channel
   \<and> slots (fst (processChannel g now channel)) =
       (if automationEnabled channel
        then map (\<lambda>s. fst (processSlot g now (tick_channel_id channel) s)) (slots channel)
        else slots channel)"
  by (simp add: processChannel_def Let_def comp_def)

lemma processChannel_snd:
  "snd (processChannel g now channel) =
     (if automationEnabled channel
      then concat (map (\<lambda>s. snd (processSlot g now (tick_channel_id channel) s)) (slots channel))
      else [])"
  by (simp add: processChannel_def Let_def comp_def)

lemma processTick_fst: "fst (processTick g now channels) = map (\<lambda>c. fst (processChannel g now c)) channels"
  by (simp add: processTick_def Let_def comp_def)

lemma processTick_snd:
  "snd (processTick g now channels) = concat (map (\<lambda>c. snd (processChannel g now c)) channels)"
  by (simp add: processTick_def Let_def comp_def)

lemma processTick_again:
  "snd (processTick g2 now (fst (processTick g1 now channels))) = []"
  by (simp add: processTick_fst processTick_snd comp_def processChannel_again)

lemma firingsOf_append:
  "firingsOf cid sid (xs @ ys) = firingsOf cid sid xs @ firingsOf cid sid ys"
  by (simp add: firingsOf_def)

lemma firingsOf_concat:
  "firingsOf cid sid (concat xss) = concat (map (firingsOf cid sid) xss)"
  by (induction xss) (simp_all add: firingsOf_append, simp add: firingsOf_def)

lemma firingsOf_slot:
  "firingsOf cid sid (snd (processSlot g now cid' s)) =
     (if cid' = cid \<and> slot_id s = sid then snd (processSlot g now cid' s) else [])"
  by (auto simp: firingsOf_def processSlot_def)

lemma firingsOf_slots_other:
  assumes "cid' \<noteq> cid \<or> sid \<notin> slot_id ` set ss"
  shows "concat (map (\<lambda>x. firingsOf cid sid (snd (processSlot g now cid' x))) ss) = []"
  using assms by (induction ss) (auto simp: firingsOf_slot)

lemma firingsOf_slots_this:
  assumes "distinct (map slot_id ss)" "s \<in> set ss"
  shows "concat (map (\<lambda>x. firingsOf cid (slot_id s) (snd (processSlot g now cid x))) ss) =
         snd (processSlot g now cid s)"
  using assms
proof (induction ss)
  case Nil
  then show ?case by simp
next
  case (Cons x xs)
  show ?case
  proof (cases "x = s")
    case True
    with Cons.prems have "slot_id s \<notin> slot_id ` set xs" by auto
    then have "concat (map (\<lambda>x. firingsOf cid (slot_id s) (snd (processSlot g now cid x))) xs) = []"
      by (intro firingsOf_slots_other) simp
    with True show ?thesis by (simp add: firingsOf_slot)
  next
    case False
    with Cons.prems have "s \<in> set xs" "slot_id x \<noteq> slot_id s" "distinct (map slot_id xs)"
      by auto
    with Cons.IH show ?thesis by (simp add: firingsOf_slot)
  qed
qed

lemma firingsOf_channel:
  "firingsOf cid sid (snd (processChannel g now c)) =
     (if automationEnabled c
      then concat (map (\<lambda>x. firingsOf cid sid (snd (processSlot g now (tick_channel_id c) x)))
                    (slots c))
      else [])"
  by (simp add: processChannel_snd firingsOf_concat comp_def) (simp add: firingsOf_def)

lemma firingsOf_channel_other:
  assumes "(cid, sid) \<notin> set (slotKeys [c])"
  shows "firingsOf cid sid (snd (processChannel g now c)) = []"
proof -
  from assms have "tick_channel_id c \<noteq> cid \<or> sid \<notin> slot_id ` set (slots c)"
    by (auto simp: slotKeys_def)
  then show ?thesis
    by (simp add: firingsOf_channel firingsOf_slots_other del: concat_eq_Nil_conv)
qed

lemma firingsOf_channel_this:
  assumes "distinct (slotKeys [c])" "s \<in> set (slots c)"
  shows "firingsOf (tick_channel_id c) (slot_id s) (snd (processChannel g now c)) =
     (if automationEnabled c then snd (processSlot g now (tick_channel_id c) s) else [])"
proof -
  from assms(1) have "distinct (map slot_id (slots c))"
    by (simp add: slotKeys_def distinct_map comp_def inj_on_def)
  from firingsOf_slots_this[OF this assms(2)] show ?thesis
    by (simp add: firingsOf_channel)
qed

lemma slotKeys_Cons: "slotKeys (c # cs) = slotKeys [c] @ slotKeys cs"
  by (simp add: slotKeys_def)

lemma slotKeys_mem:
  "c \<in> set cs \<Longrightarrow> s \<in> set (slots c) \<Longrightarrow> (tick_channel_id c, slot_id s) \<in> set (slotKeys cs)"
  by (auto simp: slotKeys_def)

lemma firingsOf_tick_other:
  assumes "(cid, sid) \<notin> set (slotKeys cs)"
  shows "firingsOf cid sid (snd (processTick g now cs)) = []"
  using assms
proof (induction cs)
  case Nil
  then show ?case by (simp add: processTick_snd firingsOf_def)
next
  case (Cons c cs)
  from Cons.prems have "(cid, sid) \<notin> set (slotKeys [c])" "(cid, sid) \<notin> set (slotKeys cs)"
    by (simp_all add: slotKeys_Cons[of c cs])
  with Cons.IH firingsOf_channel_other[of cid sid c g now] show ?case
    by (simp add: processTick_snd firingsOf_append)
qed

lemma firingsOf_tick:
  assumes "distinct (slotKeys cs)" "c \<in> set cs" "s \<in> set (slots c)"
  shows "firingsOf (tick_channel_id c) (slot_id s) (snd (processTick g now cs)) =
     (if automationEnabled c then snd (processSlot g now (tick_channel_id c) s) else [])"
  using assms
proof (induction cs)
  case Nil
  then show ?case by simp
next
  case (Cons x xs)
  let ?k = "(tick_channel_id c, slot_id s)"
  from Cons.prems(1) have d: "distinct (slotKeys [x])" "distinct (slotKeys xs)"
    "set (slotKeys [x]) \<inter> set (slotKeys xs) = {}"
    by (simp_all add: slotKeys_Cons[of x xs])
  have split: "firingsOf (tick_channel_id c) (slot_id s) (snd (processTick g now (x # xs))) =
      firingsOf (tick_channel_id c) (slot_id s) (snd (processChannel g now x))
      @ firingsOf (tick_channel_id c) (slot_id s) (snd (processTick g now xs))"
    by (simp add: processTick_snd firingsOf_append)
  show ?case
  proof (cases "x = c")
    case True
    with Cons.prems(3) have "?k \<in> set (slotKeys [x])" by (simp add: slotKeys_mem)
    with d(3) have "?k \<notin> set (slotKeys xs)" by blast
    then have "firingsOf (tick_channel_id c) (slot_id s) (snd (processTick g now xs)) = []"
      by (rule firingsOf_tick_other)
    with split True firingsOf_channel_this[OF d(1), of s g now] Cons.prems(3)
    show ?thesis by simp
  next
    case False
    with Cons.prems have m: "c \<in> set xs" by simp
    with Cons.prems(3) have "?k \<in> set (slotKeys xs)" by (simp add: slotKeys_mem)
    with d(3) have "?k \<notin> set (slotKeys [x])" by blast
    then have "firingsOf (tick_channel_id c) (slot_id s) (snd (processChannel g now x)) = []"
      by (rule firingsOf_channel_other)
    with split Cons.IH[OF d(2) m Cons.prems(3)] show ?thesis by simp
  qed
qed

lemma slotKeys_processTick: "slotKeys (fst (processTick g now cs)) = slotKeys cs"
  by (induction cs)
     (simp_all add: processTick_fst slotKeys_def processChannel_fst comp_def processSlot_id)

lemma first_tick_fires:
  assumes d: "distinct (slotKeys channels)" and c: "channel \<in> set channels"
    and s: "slot \<in> set (slots channel)"
    and due: "automationEnabled channel" "isDue now slot" "\<not> firedToday now slot"
  shows "firingsOf (tick_channel_id channel) (slot_id slot) (snd (processTick g1 now channels)) =
     [(tick_channel_id channel, slot_id slot,
       map (g1 (tick_channel_id channel) (slot_id slot)) [0 ..< slot_promptsPerRun slot])]"
  using firingsOf_tick[OF d c s, of g1 now] due by (simp add: processSlot_def)

lemma example_run:
  "snd (processTick alwaysOk exampleNow exampleStore) = [(''c1'', ''s1'', [True, True])]"
  "snd (processTick alwaysOk exampleNow (fst (processTick alwaysOk exampleNow exampleStore))) = []"
  "isDue exampleNow exampleSlot"
  "firedToday exampleNow exampleSlot = False"
  "distinct (slotKeys exampleStore)"
  "slot_promptsPerRun exampleSlot = 2"
  "generationCalls ''c1'' ''s1'' [(''c1'', ''s1'', [True, True])] = 2"
  "firingsOf ''c1'' ''s1'' [(''c1'', ''s1'', [True, True])] = [(''c1'', ''s1'', [True, True])]"
  by code_simp+

lemma runTicks_snd_Cons:
  "snd (runTicks ((g, now) # rest) store) =
     snd (processTick g now store) @ snd (runTicks rest (fst (processTick g now store)))"
  by (simp add: Let_def split: prod.splits)

lemma runTicks_already_fired:
  assumes "distinct (slotKeys channels)" "channel \<in> set channels" "slot \<in> set (slots channel)"
    and "firedToday now0 slot" "\<forall>tick \<in> set ticks. date (snd tick) = date now0"
  shows "firingsOf (tick_channel_id channel) (slot_id slot) (snd (runTicks ticks channels)) = []"
  using assms
proof (induction ticks arbitrary: channels channel slot)
  case Nil
  then show ?case by (simp add: firingsOf_def)
next
  case (Cons tick rest)
  obtain g now where tick: "tick = (g, now)" by (cases tick)
  with Cons.prems(5) have date: "date now0 = date now" by simp
  let ?cid = "tick_channel_id channel"
  let ?store1 = "fst (processTick g now channels)"
  let ?ch1 = "fst (processChannel g now channel)"
  let ?slot1 = "if automationEnabled channel then fst (processSlot g now ?cid slot) else slot"
  have d1: "distinct (slotKeys ?store1)" using Cons.prems(1) by (simp add: slotKeys_processTick)
  have c1: "?ch1 \<in> set ?store1" using Cons.prems(2) by (simp add: processTick_fst)
  have s1: "?slot1 \<in> set (slots ?ch1)" using Cons.prems(3) by (simp add: processChannel_fst)
  have i1: "tick_channel_id ?ch1 = ?cid" "slot_id ?slot1 = slot_id slot"
    by (simp_all add: processChannel_fst processSlot_id)
  have f1: "firedToday now0 ?slot1"
    using Cons.prems(4) date by (simp add: processSlot_firedToday_mono)
  have "firingsOf ?cid (slot_id slot) (snd (processTick g now channels)) = []"
    using firingsOf_tick[OF Cons.prems(1-3), of g now] Cons.prems(4) date
    by (simp add: processSlot_skip[of now0])
  moreover have "firingsOf ?cid (slot_id slot) (snd (runTicks rest ?store1)) = []"
    using Cons.IH[OF d1 c1 s1 f1] Cons.prems(5) by (simp only: i1) simp
  ultimately show ?case
    by (simp only: tick runTicks_snd_Cons firingsOf_append) simp
qed

lemma runTicks_at_most_one:
  assumes "distinct (slotKeys channels)" "channel \<in> set channels" "slot \<in> set (slots channel)"
    and "\<forall>tick \<in> set ticks. date (snd tick) = d"
  shows "length (firingsOf (tick_channel_id channel) (slot_id slot)
           (snd (runTicks ticks channels))) \<le> 1"
  using assms
proof (induction ticks arbitrary: channels channel slot)
  case Nil
  then show ?case by (simp add: firingsOf_def)
next
  case (Cons tick rest)
  obtain g now where tick: "tick = (g, now)" by (cases tick)
  with Cons.prems(4) have date: "date now = d" and rest: "\<forall>tick \<in> set rest. date (snd tick) = d"
    by simp_all
  let ?cid = "tick_channel_id channel"
  let ?store1 = "fst (processTick g now channels)"
  let ?ch1 = "fst (processChannel g now channel)"
  let ?slot1 = "if automationEnabled channel then fst (processSlot g now ?cid slot) else slot"
  let ?first = "firingsOf ?cid (slot_id slot) (snd (processTick g now channels))"
  let ?later = "firingsOf ?cid (slot_id slot) (snd (runTicks rest ?store1))"
  have d1: "distinct (slotKeys ?store1)" using Cons.prems(1) by (simp add: slotKeys_processTick)
  have c1: "?ch1 \<in> set ?store1" using Cons.prems(2) by (simp add: processTick_fst)
  have s1: "?slot1 \<in> set (slots ?ch1)" using Cons.prems(3) by (simp add: processChannel_fst)
  have i1: "tick_channel_id ?ch1 = ?cid" "slot_id ?slot1 = slot_id slot"
    by (simp_all add: processChannel_fst processSlot_id)
  have first: "?first = (if automationEnabled channel then snd (processSlot g now ?cid slot) else [])"
    by (rule firingsOf_tick[OF Cons.prems(1-3)])
  have total: "firingsOf ?cid (slot_id slot) (snd (runTicks (tick # rest) channels)) = ?first @ ?later"
    by (simp only: tick runTicks_snd_Cons firingsOf_append)
  show ?case
  proof (cases "?first = []")
    case True
    have "length ?later \<le> 1"
      using Cons.IH[OF d1 c1 s1 rest] by (simp only: i1)
    with True total show ?thesis by simp
  next
    case False
    with first have en: "automationEnabled channel" "snd (processSlot g now ?cid slot) \<noteq> []"
      by (auto split: if_splits)
    then have "firedToday now ?slot1" by (simp add: processSlot_fired)
    moreover from rest date have "\<forall>tick \<in> set rest. date (snd tick) = date now" by simp
    ultimately have "?later = []"
      using runTicks_already_fired[OF d1 c1 s1, of now rest] by (simp only: i1)
    moreover have "length ?first \<le> 1"
      using first processSlot_length[of g now ?cid slot] by simp
    ultimately show ?thesis using total by simp
  qed
qed

lemma runTicks_twice:
  "snd (runTicks [(g1, now), (g2, now)] channels) = snd (processTick g1 now channels)"
proof -
  have "snd (runTicks [(g1, now), (g2, now)] channels) =
        snd (processTick g1 now channels)
        @ snd (runTicks [(g2, now)] (fst (processTick g1 now channels)))"
    by (rule runTicks_snd_Cons)
  also have "snd (runTicks [(g2, now)] (fst (processTick g1 now channels))) =
        snd (processTick g2 now (fst (processTick g1 now channels)))
        @ snd (runTicks [] (fst (processTick g2 now (fst (processTick g1 now channels)))))"
    by (rule runTicks_snd_Cons)
  also have "\<dots> = []" by (simp add: processTick_again)
  finally show ?thesis by simp
qed

text \<open>
  Claim C1, as amended.  In a store with unique slot identifiers, for every slot: over any
  sequence of ticks that fall on one calendar date at most one firing of the slot is
  recorded; a second invocation with the same now fires nothing at all; and when the slot
  is due at now, its channel is automation-enabled and it has not yet fired on that date,
  two invocations with the same now record exactly one firing of the slot, in which the
  generation collaborator is invoked \<open>promptsPerRun\<close> times, all of them in the first
  invocation.
\<close>

theorem C1_at_most_one_firing:
  fixes channels :: "TickChannel list" and channel :: TickChannel and slot :: Slot
    and now :: Instant and g1 g2 :: Generate
  defines "cid \<equiv> tick_channel_id channel"
    and "sid \<equiv> slot_id slot"
  assumes "distinct (slotKeys channels)" and "channel \<in> set channels"
    and "slot \<in> set (slots channel)"
  shows "((\<forall>tick \<in> set ticks. date (snd tick) = d) \<longrightarrow>
            length (firingsOf cid sid (snd (runTicks ticks channels))) \<le> 1)
       \<and> snd (processTick g2 now (fst (processTick g1 now channels))) = []
       \<and> (automationEnabled channel \<and> isDue now slot \<and> \<not> firedToday now slot \<longrightarrow>
            firingsOf cid sid (snd (runTicks [(g1, now), (g2, now)] channels)) =
              [(cid, sid, map (g1 cid sid) [0 ..< slot_promptsPerRun slot])]
          \<and> generationCalls cid sid (snd (runTicks [(g1, now), (g2, now)] channels)) =
              slot_promptsPerRun slot)"
proof (intro conjI impI)
  assume "\<forall>tick \<in> set ticks. date (snd tick) = d"
  with assms(3-5) show "length (firingsOf cid sid (snd (runTicks ticks channels))) \<le> 1"
    unfolding cid_def sid_def by (rule runTicks_at_most_one)
next
  show "snd (processTick g2 now (fst (processTick g1 now channels))) = []"
    by (rule processTick_again)
  assume due: "automationEnabled channel \<and> isDue now slot \<and> \<not> firedToday now slot"
  with assms(3-5) first_tick_fires[of channels channel slot now g1]
  show f: "firingsOf cid sid (snd (runTicks [(g1, now), (g2, now)] channels)) =
              [(cid, sid, map (g1 cid sid) [0 ..< slot_promptsPerRun slot])]"
    unfolding runTicks_twice cid_def sid_def by simp
  show "generationCalls cid sid (snd (runTicks [(g1, now), (g2, now)] channels)) =
              slot_promptsPerRun slot"
    unfolding generationCalls_def f by simp
qed

lemma example_twice:
  "snd (runTicks [(alwaysOk, exampleNow), (alwaysOk, exampleNow)] exampleStore)
     = [(''c1'', ''s1'', [True, True])]"
  by (simp only: runTicks_twice example_run)

text \<open>
  Claim C1 as stated fails on the number of invocations of the generation collaborator:
  a due slot with \<open>promptsPerRun = 2\<close> fires once over two invocations with the same now,
  and that one firing invokes the collaborator twice.
\<close>

theorem C1_one_invocation_counterexample:
  "isDue exampleNow exampleSlot
   \<and> \<not> firedToday exampleNow exampleSlot
   \<and> snd (runTicks [(alwaysOk, exampleNow), (alwaysOk, exampleNow)] exampleStore)
       = [(''c1'', ''s1'', [True, True])]
   \<and> generationCalls ''c1'' ''s1''
        (snd (runTicks [(alwaysOk, exampleNow), (alwaysOk, exampleNow)] exampleStore)) = 2
   \<and> generationCalls ''c1'' ''s1''
        (snd (runTicks [(alwaysOk, exampleNow), (alwaysOk, exampleNow)] exampleStore)) \<noteq> 1"
  by (simp add: example_twice example_run del: runTicks.simps)

text \<open>
  The amended statement at the example store: one firing with two outcomes, and an empty
  report for the second invocation.
\<close>

theorem C1_at_most_one_firing_witness:
  "distinct (slotKeys exampleStore)
   \<and> hd exampleStore \<in> set exampleStore
   \<and> exampleSlot \<in> set (slots (hd exampleStore))
   \<and> automationEnabled (hd exampleStore)
   \<and> isDue exampleNow exampleSlot
   \<and> \<not> firedToday exampleNow exampleSlot
   \<and> firingsOf ''c1'' ''s1''
        (snd (runTicks [(alwaysOk, exampleNow), (alwaysOk, exampleNow)] exampleStore))
      = [(''c1'', ''s1'', [True, True])]
   \<and> snd (processTick alwaysOk exampleNow
             (fst (processTick alwaysOk exampleNow exampleStore))) = []"
proof -
  have h: "distinct (slotKeys exampleStore)" "hd exampleStore \<in> set exampleStore"
    "exampleSlot \<in> set (slots (hd exampleStore))"
    by (simp_all add: example_run) (simp_all add: exampleStore_def)
  have i: "tick_channel_id (hd exampleStore) = ''c1''" "slot_id exampleSlot = ''s1''"
    "automationEnabled (hd exampleStore)"
    by (simp_all add: exampleStore_def exampleSlot_def)
  have due: "isDue exampleNow exampleSlot" "\<not> firedToday exampleNow exampleSlot"
    by (simp_all add: example_run)
  have m: "map (alwaysOk ''c1'' ''s1'') [0 ..< slot_promptsPerRun exampleSlot] = [True, True]"
    by code_simp
  note t = C1_at_most_one_firing [OF h, where ?g1.0 = alwaysOk and ?g2.0 = alwaysOk
      and now = exampleNow]
  from t have e: "snd (processTick alwaysOk exampleNow
             (fst (processTick alwaysOk exampleNow exampleStore))) = []"
    by blast
  from t i(3) due have "firingsOf (tick_channel_id (hd exampleStore)) (slot_id exampleSlot)
        (snd (runTicks [(alwaysOk, exampleNow), (alwaysOk, exampleNow)] exampleStore))
      = [(tick_channel_id (hd exampleStore), slot_id exampleSlot,
          map (alwaysOk (tick_channel_id (hd exampleStore)) (slot_id exampleSlot))
            [0 ..< slot_promptsPerRun exampleSlot])]"
    by blast
  then have f: "firingsOf ''c1'' ''s1''
        (snd (runTicks [(alwaysOk, exampleNow), (alwaysOk, exampleNow)] exampleStore))
      = [(''c1'', ''s1'', [True, True])]"
    by (simp only: i m)
  from h i(3) due e f show ?thesis by (intro conjI)
qed

end
